theory Spec2Isabelle
  imports Complex_Main
begin

section \<open>Errors and NumPy arrays\<close>

text \<open>
  The routines of the repository work on NumPy arrays of floating-point numbers.  The
  model uses exact real arithmetic (the claims about numerical results are stated "in
  exact arithmetic"); where a routine assigns into an array that has the dtype of the
  caller's array, that dtype is a parameter (see \<open>dtype\<close> below).  Everything the Python code can raise is a value of type
  \<open>error\<close>:
  \<^item> \<open>AssertionError msg\<close>: a failed \<^verbatim>\<open>assert cond, msg\<close> (a \<^verbatim>\<open>{}\<close> of a
    formatted message is kept as written);
  \<^item> \<open>ValueError\<close>: NumPy's shape mismatch (matrix product, broadcasting) and a
    negative dimension;
  \<^item> \<open>IndexError\<close>: an index out of bounds;
  \<^item> \<open>TypeError\<close>: a one-dimensional array (or nothing) where a two-dimensional one is
    used, and the other way round;
  \<^item> \<open>NonFinite\<close>: NumPy does not raise on a division by zero, it puts \<^verbatim>\<open>nan\<close> or
    \<^verbatim>\<open>inf\<close> into the result (with a warning), and every later operation on the value
    keeps it non-finite.  No real number stands for such a value, so the model ends the
    computation there with \<open>Inl NonFinite\<close>: "the value handed back is not a real array".
\<close>

datatype error = AssertionError string | ValueError | IndexError | TypeError | NonFinite

definition bind_res :: "error + 'a \<Rightarrow> ('a \<Rightarrow> error + 'b) \<Rightarrow> error + 'b" where
  "bind_res m f = (case m of Inl e \<Rightarrow> Inl e | Inr x \<Rightarrow> f x)"

type_synonym vec = "real list"

text \<open>A two-dimensional array is the list of its rows.\<close>

type_synonym mat = "real list list"

definition nrows :: "mat \<Rightarrow> nat" where
  "nrows A = length A"

definition ncols :: "mat \<Rightarrow> nat" where
  "ncols A = (case A of [] \<Rightarrow> 0 | r # _ \<Rightarrow> length r)"

text \<open>\<open>is_mat m n A\<close>: the list of rows is an array of shape \<open>(m, n)\<close>.\<close>

definition is_mat :: "nat \<Rightarrow> nat \<Rightarrow> mat \<Rightarrow> bool" where
  "is_mat m n A = (length A = m \<and> list_all (\<lambda>r. length r = n) A)"

definition dot :: "vec \<Rightarrow> vec \<Rightarrow> real" where
  "dot x y = sum_list (map (\<lambda>(a, b). a * b) (zip x y))"

text \<open>\<^verbatim>\<open>x.T @ y\<close> of two one-dimensional arrays: NumPy raises on different lengths.\<close>

definition vdot :: "vec \<Rightarrow> vec \<Rightarrow> error + real" where
  "vdot x y = (if length x = length y then Inr (dot x y) else Inl ValueError)"

definition col :: "mat \<Rightarrow> nat \<Rightarrow> vec" where
  "col A j = map (\<lambda>r. r ! j) A"

text \<open>\<^verbatim>\<open>A @ v\<close> for \<open>A\<close> of shape \<open>(m, n)\<close> and \<open>v\<close> of shape \<open>(n,)\<close>.\<close>

definition matvec :: "mat \<Rightarrow> vec \<Rightarrow> error + vec" where
  "matvec A v = (if ncols A = length v then Inr (map (\<lambda>r. dot r v) A) else Inl ValueError)"

text \<open>\<^verbatim>\<open>x.T @ A\<close> for \<open>x\<close> of shape \<open>(m,)\<close> and \<open>A\<close> of shape \<open>(m, n)\<close>.\<close>

definition vecmat :: "vec \<Rightarrow> mat \<Rightarrow> error + vec" where
  "vecmat x A =
     (if length x = nrows A then Inr (map (\<lambda>j. dot x (col A j)) [0..<ncols A])
      else Inl ValueError)"

text \<open>Division of a real number and of an array by a scalar; see \<open>NonFinite\<close>.\<close>

definition smul :: "real \<Rightarrow> vec \<Rightarrow> vec" where
  "smul c x = map (\<lambda>a. c * a) x"

definition vadd :: "vec \<Rightarrow> vec \<Rightarrow> vec" where
  "vadd x y = map (\<lambda>(a, b). a + b) (zip x y)"

definition vsub :: "vec \<Rightarrow> vec \<Rightarrow> vec" where
  "vsub x y = map (\<lambda>(a, b). a - b) (zip x y)"

definition fdiv :: "real \<Rightarrow> real \<Rightarrow> error + real" where
  "fdiv a b = (if b = 0 then Inl NonFinite else Inr (a / b))"

definition vdiv :: "vec \<Rightarrow> real \<Rightarrow> error + vec" where
  "vdiv w c = (if c = 0 \<and> w \<noteq> [] then Inl NonFinite else Inr (map (\<lambda>x. x / c) w))"

text \<open>
  \<^verbatim>\<open>np.isclose(a, b)\<close> and \<^verbatim>\<open>np.allclose\<close> with NumPy's default tolerances
  \<^verbatim>\<open>rtol=1e-05, atol=1e-08\<close>: \<open>|a - b| \<le> atol + rtol * |b|\<close>.
\<close>

definition isclose :: "real \<Rightarrow> real \<Rightarrow> bool" where
  "isclose a b = (\<bar>a - b\<bar> \<le> 1 / 10 ^ 8 + (1 / 10 ^ 5) * \<bar>b\<bar>)"

text \<open>
  Elementwise operations on two-dimensional arrays broadcast: along each axis the two
  lengths are equal, or one of them is 1 and that array is repeated; anything else is a
  \<^verbatim>\<open>ValueError\<close>.  (A list of rows cannot hold the shape \<open>(0, n)\<close> with \<open>n > 0\<close>: an
  array without rows has no columns here.)
\<close>

definition bdim :: "nat \<Rightarrow> nat \<Rightarrow> error + nat" where
  "bdim a b =
     (if a = b then Inr a else if a = 1 then Inr b else if b = 1 then Inr a
      else Inl ValueError)"

definition bget :: "mat \<Rightarrow> nat \<Rightarrow> nat \<Rightarrow> real" where
  "bget A i j = A ! (if nrows A = 1 then 0 else i) ! (if ncols A = 1 then 0 else j)"

definition broadcast2 :: "(real \<Rightarrow> real \<Rightarrow> 'a) \<Rightarrow> mat \<Rightarrow> mat \<Rightarrow> error + 'a list list" where
  "broadcast2 f A B =
     bind_res (bdim (nrows A) (nrows B)) (\<lambda>m.
     bind_res (bdim (ncols A) (ncols B)) (\<lambda>n.
       Inr (map (\<lambda>i. map (\<lambda>j. f (bget A i j) (bget B i j)) [0..<n]) [0..<m])))"

text \<open>\<^verbatim>\<open>A.T\<close>, \<^verbatim>\<open>np.eye(M)\<close>, a scalar times an array, and \<^verbatim>\<open>A @ B\<close>.\<close>

definition transpose_m :: "mat \<Rightarrow> mat" where
  "transpose_m A = map (col A) [0..<ncols A]"

definition eye :: "nat \<Rightarrow> mat" where
  "eye M = map (\<lambda>i. map (\<lambda>j. if i = j then 1 else 0) [0..<M]) [0..<M]"

definition msmul :: "real \<Rightarrow> mat \<Rightarrow> mat" where
  "msmul c A = map (smul c) A"

definition matmul :: "mat \<Rightarrow> mat \<Rightarrow> error + mat" where
  "matmul A B =
     (if ncols A = nrows B then Inr (map (\<lambda>r. map (\<lambda>j. dot r (col B j)) [0..<ncols B]) A)
      else Inl ValueError)"

text \<open>A loop whose body can raise: the first error ends it.\<close>

fun foldM_res :: "('a \<Rightarrow> 's \<Rightarrow> error + 's) \<Rightarrow> 'a list \<Rightarrow> 's \<Rightarrow> error + 's" where
  "foldM_res f [] s = Inr s"
| "foldM_res f (x # xs) s = bind_res (f x s) (foldM_res f xs)"

section \<open>qrdecomp/utils.py\<close>

text \<open>\<^verbatim>\<open>l2_norm(x) = np.sqrt(np.dot(x.T, x))\<close>\<close>

definition l2_norm :: "vec \<Rightarrow> real" where
  "l2_norm x = sqrt (dot x x)"

text \<open>
  \<^verbatim>\<open>is_symmetric(A) = np.allclose(A, A.T)\<close>: the comparison broadcasts the shapes
  \<open>(m, n)\<close> and \<open>(n, m)\<close> against each other.
\<close>

definition is_symmetric :: "mat \<Rightarrow> error + bool" where
  "is_symmetric A =
     bind_res (broadcast2 isclose A (transpose_m A)) (\<lambda>C.
       Inr (list_all (list_all (\<lambda>b. b)) C))"

text \<open>
  The argument of \<^verbatim>\<open>norm\<close> is anything \<^verbatim>\<open>np.array\<close> accepts: a scalar, a
  one-dimensional or a two-dimensional array.
\<close>

datatype ndarray = Arr0 real | Arr1 vec | Arr2 mat

fun ndim :: "ndarray \<Rightarrow> nat" where
  "ndim (Arr0 _) = 0"
| "ndim (Arr1 _) = 1"
| "ndim (Arr2 _) = 2"

text \<open>\<^verbatim>\<open>.flatten()\<close>: the entries in row-major order, as a one-dimensional array.\<close>

fun flatten :: "ndarray \<Rightarrow> ndarray" where
  "flatten (Arr0 a) = Arr1 [a]"
| "flatten (Arr1 v) = Arr1 v"
| "flatten (Arr2 A) = Arr1 (concat A)"

fun entries :: "ndarray \<Rightarrow> vec" where
  "entries (Arr0 a) = [a]"
| "entries (Arr1 v) = v"
| "entries (Arr2 A) = concat A"

text \<open>
  Modelled from the spec: the class \<^verbatim>\<open>KahanSum\<close> of the module \<^verbatim>\<open>sum\<close> is not among
  the sources.  The spec: "each add tracks a running compensation term so the final sum
  matches the mathematically exact sum".  This is Kahan's summation: the running sum and
  the compensation.
\<close>

record KahanSum =
  ksum :: real
  kcomp :: real

definition KahanSum_init :: KahanSum where
  "KahanSum_init = \<lparr>ksum = 0, kcomp = 0\<rparr>"

definition KahanSum_add :: "KahanSum \<Rightarrow> real \<Rightarrow> KahanSum" where
  "KahanSum_add s x =
     (let y = x - kcomp s; t = ksum s + y
      in \<lparr>ksum = t, kcomp = (t - ksum s) - y\<rparr>)"

definition cur_sum :: "KahanSum \<Rightarrow> real" where
  "cur_sum s = ksum s"

text \<open>The loop \<^verbatim>\<open>for i in range(N): summer.add(np.power(np.abs(v[i]), p))\<close>.\<close>

fun norm_loop :: "KahanSum \<Rightarrow> vec \<Rightarrow> real \<Rightarrow> KahanSum" where
  "norm_loop s [] p = s"
| "norm_loop s (x # xs) p = norm_loop (KahanSum_add s (\<bar>x\<bar> powr p)) xs p"

definition norm_p :: "ndarray \<Rightarrow> real \<Rightarrow> error + real" where
  "norm_p x p =
     (let v = flatten x in
      if ndim v \<noteq> 1 then Inl (AssertionError ''x must be 1D'')
      else if \<not> p \<ge> 1 then Inl (AssertionError ''p must be >= 1'')
      else Inr (cur_sum (norm_loop KahanSum_init (entries v) p) powr (1 / p)))"

text \<open>
  Python indexing along an axis of length \<open>n\<close>: a negative index counts from the end,
  anything outside \<open>-n \<le> k < n\<close> raises \<^verbatim>\<open>IndexError\<close>.
\<close>

definition py_index :: "int \<Rightarrow> nat \<Rightarrow> error + nat" where
  "py_index k n =
     (if 0 \<le> k \<and> k < int n then Inr (nat k)
      else if - int n \<le> k \<and> k < 0 then Inr (nat (int n + k))
      else Inl IndexError)"

text \<open>
  \<^verbatim>\<open>basis_vec(k, n)\<close>: \<^verbatim>\<open>np.zeros([n, 1])\<close> (a negative \<open>n\<close> is a \<^verbatim>\<open>ValueError\<close>) and
  the assignment \<^verbatim>\<open>b[k] = 1\<close>, which fills row \<open>k\<close>.
\<close>

definition basis_vec :: "int \<Rightarrow> int \<Rightarrow> error + mat" where
  "basis_vec k n =
     (if \<not> k < n then Inl (AssertionError ''[!] k cannot exceed {}.'')
      else if n < 0 then Inl ValueError
      else let b = replicate (nat n) [0::real] in
        bind_res (py_index k (length b)) (\<lambda>i. Inr (b[i := [1]])))"

section \<open>linalg/eigen/single.py\<close>

text \<open>
  \<^verbatim>\<open>rayleigh_quotient(A, x)\<close>: \<^verbatim>\<open>num = x.T @ A @ x\<close> is \<^verbatim>\<open>(x.T @ A) @ x\<close>.
\<close>

definition rayleigh_quotient :: "mat \<Rightarrow> vec \<Rightarrow> error + real" where
  "rayleigh_quotient A x =
     bind_res (vecmat x A) (\<lambda>xA.
     bind_res (vdot xA x) (\<lambda>num.
       let denum = dot x x in
       if isclose (dot x x) 1 then Inr num
       else fdiv num denum))"


section \<open>The world outside the sources\<close>

text \<open>
  \<^verbatim>\<open>linalg.ludecomp.LU\<close>, \<^verbatim>\<open>linalg.solver.solve\<close>, \<^verbatim>\<open>linalg.qrdecomp.QR\<close> and
  \<^verbatim>\<open>linalg.utils.sign\<close> are not among the sources: they are parameters of the model,
  collected in an environment.  \<^verbatim>\<open>solve\<close> is called with a matrix and with the tuple of
  factors that \<^verbatim>\<open>LU(...).decompose()\<close> returned; these are two fields.
\<close>

type_synonym plu = "mat \<times> mat \<times> mat"

record env =
  env_sign :: "real \<Rightarrow> real"
  env_lu :: "mat \<Rightarrow> error + plu"
  env_solve_lu :: "plu \<Rightarrow> vec \<Rightarrow> error + vec"
  env_solve :: "mat \<Rightarrow> vec \<Rightarrow> error + vec"
  env_qr :: "mat \<Rightarrow> error + (mat \<times> mat)"

text \<open>
  The process-wide state a call can see or change: NumPy's global random source (the
  stream of numbers still to be drawn) and, to make the order of the calls to the
  collaborators above observable, the log of these calls.
\<close>

datatype call = CallLU mat | CallSolveLU plu vec | CallSolve mat vec | CallQR mat

record world =
  rng :: "nat \<Rightarrow> real"
  calls :: "call list"

text \<open>\<^verbatim>\<open>np.random.randn(n)\<close> draws the next \<open>n\<close> numbers.\<close>

definition randn :: "nat \<Rightarrow> world \<Rightarrow> vec \<times> world" where
  "randn n w = (map (rng w) [0..<n], w\<lparr>rng := (\<lambda>i. rng w (i + n))\<rparr>)"

definition call_lu :: "env \<Rightarrow> mat \<Rightarrow> world \<Rightarrow> error + (plu \<times> world)" where
  "call_lu env A w =
     bind_res (env_lu env A) (\<lambda>f. Inr (f, w\<lparr>calls := calls w @ [CallLU A]\<rparr>))"

definition call_solve_lu :: "env \<Rightarrow> plu \<Rightarrow> vec \<Rightarrow> world \<Rightarrow> error + (vec \<times> world)" where
  "call_solve_lu env f v w =
     bind_res (env_solve_lu env f v) (\<lambda>x. Inr (x, w\<lparr>calls := calls w @ [CallSolveLU f v]\<rparr>))"

definition call_solve :: "env \<Rightarrow> mat \<Rightarrow> vec \<Rightarrow> world \<Rightarrow> error + (vec \<times> world)" where
  "call_solve env A v w =
     bind_res (env_solve env A v) (\<lambda>x. Inr (x, w\<lparr>calls := calls w @ [CallSolve A v]\<rparr>))"

definition call_qr :: "env \<Rightarrow> mat \<Rightarrow> world \<Rightarrow> error + ((mat \<times> mat) \<times> world)" where
  "call_qr env A w =
     bind_res (env_qr env A) (\<lambda>qr. Inr (qr, w\<lparr>calls := calls w @ [CallQR A]\<rparr>))"

section \<open>linalg/eigen/single.py: the iterations\<close>

definition assert_symmetric :: "mat \<Rightarrow> error + unit" where
  "assert_symmetric A =
     bind_res (is_symmetric A) (\<lambda>ok.
       if ok then Inr () else Inl (AssertionError ''[!] Matrix must be symmetric.''))"

text \<open>
  The loop of \<^verbatim>\<open>power_iteration\<close>: \<^verbatim>\<open>v = A @ v\<close>, then \<^verbatim>\<open>v /= utils.l2_norm(v)\<close>,
  \<open>max_iter\<close> times (a natural number: \<^verbatim>\<open>range\<close> of a negative number is empty).
\<close>

fun power_loop :: "mat \<Rightarrow> nat \<Rightarrow> vec \<Rightarrow> error + vec" where
  "power_loop A 0 v = Inr v"
| "power_loop A (Suc k) v =
     bind_res (matvec A v) (\<lambda>v1.
     bind_res (vdiv v1 (l2_norm v1)) (\<lambda>v2.
       power_loop A k v2))"

definition power_iteration :: "mat \<Rightarrow> nat \<Rightarrow> world \<Rightarrow> error + ((real \<times> vec) \<times> world)" where
  "power_iteration A max_iter w =
     bind_res (assert_symmetric A) (\<lambda>_.
       let (v, w1) = randn (nrows A) w in
       bind_res (power_loop A max_iter v) (\<lambda>v.
       bind_res (rayleigh_quotient A v) (\<lambda>e.
         Inr ((e, v), w1))))"

fun inverse_loop :: "env \<Rightarrow> plu \<Rightarrow> nat \<Rightarrow> vec \<Rightarrow> world \<Rightarrow> error + (vec \<times> world)" where
  "inverse_loop env PLU 0 v w = Inr (v, w)"
| "inverse_loop env PLU (Suc k) v w =
     bind_res (call_solve_lu env PLU v w) (\<lambda>(v1, w1).
     bind_res (vdiv v1 (l2_norm v1)) (\<lambda>v2.
       inverse_loop env PLU k v2 w1))"

text \<open>
  \<^verbatim>\<open>PLU = LU(A.copy(), pivoting='partial').decompose()\<close> stands before the loop; the loop
  body is \<^verbatim>\<open>v = solve(PLU, v)\<close> and \<^verbatim>\<open>v /= utils.l2_norm(v)\<close>.
\<close>

definition inverse_iteration ::
    "env \<Rightarrow> mat \<Rightarrow> nat \<Rightarrow> world \<Rightarrow> error + ((real \<times> vec) \<times> world)" where
  "inverse_iteration env A max_iter w =
     bind_res (assert_symmetric A) (\<lambda>_.
       let (v, w1) = randn (nrows A) w in
       bind_res (call_lu env A w1) (\<lambda>(PLU, w2).
       bind_res (inverse_loop env PLU max_iter v w2) (\<lambda>(v, w3).
       bind_res (rayleigh_quotient A v) (\<lambda>e.
         Inr ((e, v), w3)))))"


fun rqi_loop ::
    "env \<Rightarrow> mat \<Rightarrow> nat \<Rightarrow> real \<Rightarrow> vec \<Rightarrow> world \<Rightarrow> error + ((real \<times> vec) \<times> world)" where
  "rqi_loop env A 0 mu v w = Inr ((mu, v), w)"
| "rqi_loop env A (Suc k) mu v w =
     bind_res (broadcast2 (\<lambda>a b. a - b) A (msmul mu (eye (nrows A)))) (\<lambda>B.
     bind_res (call_solve env B v w) (\<lambda>(v1, w1).
     bind_res (vdiv v1 (l2_norm v1)) (\<lambda>v2.
     bind_res (rayleigh_quotient A v2) (\<lambda>mu'.
       rqi_loop env A k mu' v2 w1))))"

definition rayleigh_quotient_iteration ::
    "env \<Rightarrow> mat \<Rightarrow> real \<Rightarrow> nat \<Rightarrow> world \<Rightarrow> error + ((real \<times> vec) \<times> world)" where
  "rayleigh_quotient_iteration env A mu max_iter w =
     bind_res (assert_symmetric A) (\<lambda>_.
       let (v, w1) = randn (nrows A) w in
       rqi_loop env A max_iter mu v w1)"

section \<open>linalg/eigen/multi.py\<close>

subsection \<open>Helpers of linalg/utils.py and NumPy indexing\<close>

text \<open>
  Modelled from the spec: \<^verbatim>\<open>utils.projection\<close> and \<^verbatim>\<open>utils.normalize\<close> are not among
  the sources.  The spec: "subtract each eigenvector's projection" and "renormalizes by
  L2 norm".
\<close>

definition projection :: "vec \<Rightarrow> vec \<Rightarrow> error + vec" where
  "projection v u = bind_res (fdiv (dot v u) (dot u u)) (\<lambda>q. Inr (smul q u))"

definition normalize_vec :: "vec \<Rightarrow> error + vec" where
  "normalize_vec x = vdiv x (l2_norm x)"

text \<open>
  Modelled from the spec: \<^verbatim>\<open>utils.is_square\<close> and \<^verbatim>\<open>utils.diag\<close> are not among the
  sources.  The spec: "not square" is a precondition violation; "diagonal extraction".
\<close>

definition is_square :: "mat \<Rightarrow> bool" where
  "is_square A = (nrows A = ncols A)"

definition diag :: "mat \<Rightarrow> vec" where
  "diag A = map (\<lambda>i. A ! i ! i) [0..<min (nrows A) (ncols A)]"

text \<open>
  Modelled from the spec: \<^verbatim>\<open>utils.basis_vec(k, n, flat=True)\<close>; the sources hold the
  version without \<^verbatim>\<open>flat\<close> (above).  The flat vector is one-dimensional.
\<close>

definition basis_vec_flat :: "int \<Rightarrow> int \<Rightarrow> error + vec" where
  "basis_vec_flat k n =
     (if \<not> k < n then Inl (AssertionError ''[!] k cannot exceed {}.'')
      else if n < 0 then Inl ValueError
      else let b = replicate (nat n) (0::real) in
        bind_res (py_index k (length b)) (\<lambda>i. Inr (b[i := 1])))"

text \<open>
  \<^verbatim>\<open>E[:, i] = v\<close> and \<^verbatim>\<open>e[i] = x\<close> for a natural number \<open>i\<close>; \<^verbatim>\<open>E[:, idx]\<close> and
  \<^verbatim>\<open>e[idx]\<close> for an array \<open>idx\<close> of natural numbers; \<^verbatim>\<open>A[i, j]\<close> for integers.
\<close>

definition set_col :: "mat \<Rightarrow> nat \<Rightarrow> vec \<Rightarrow> error + mat" where
  "set_col E i v =
     (if \<not> i < ncols E then Inl IndexError
      else if length v = nrows E then Inr (map (\<lambda>(r, x). r[i := x]) (zip E v))
      else if length v = 1 then Inr (map (\<lambda>r. r[i := v ! 0]) E)
      else Inl ValueError)"

definition set_item :: "vec \<Rightarrow> nat \<Rightarrow> real \<Rightarrow> error + vec" where
  "set_item e i x = (if i < length e then Inr (e[i := x]) else Inl IndexError)"

definition take_cols :: "mat \<Rightarrow> nat list \<Rightarrow> error + mat" where
  "take_cols E idx =
     (if list_all (\<lambda>j. j < ncols E) idx then Inr (map (\<lambda>r. map (\<lambda>j. r ! j) idx) E)
      else Inl IndexError)"

definition take_items :: "vec \<Rightarrow> nat list \<Rightarrow> error + vec" where
  "take_items e idx =
     (if list_all (\<lambda>j. j < length e) idx then Inr (map (\<lambda>j. e ! j) idx)
      else Inl IndexError)"

definition get_item2 :: "mat \<Rightarrow> int \<Rightarrow> int \<Rightarrow> error + real" where
  "get_item2 A i j =
     bind_res (py_index i (nrows A)) (\<lambda>r.
     bind_res (py_index j (ncols A)) (\<lambda>c.
       Inr (A ! r ! c)))"

text \<open>
  \<^verbatim>\<open>x.argsort()\<close>: the indices that sort \<open>x\<close> increasingly.  NumPy leaves the order of
  equal keys open; the model keeps them in their order of appearance.
\<close>

definition argsort :: "vec \<Rightarrow> nat list" where
  "argsort x = map snd (sort_key fst (zip x [0..<length x]))"

text \<open>
  The block \<^verbatim>\<open>idx = np.abs(eigvals).argsort()[::-1]\<close>, \<^verbatim>\<open>eigvecs = eigvecs[:, idx]\<close>,
  \<^verbatim>\<open>eigvals = eigvals[idx]\<close> that ends both \<^verbatim>\<open>projected_iteration\<close> and
  \<^verbatim>\<open>qr_algorithm\<close>.
\<close>

definition sort_eigs :: "vec \<Rightarrow> mat \<Rightarrow> error + (vec \<times> mat)" where
  "sort_eigs eigvals eigvecs =
     (let idx = rev (argsort (map abs eigvals)) in
      bind_res (take_cols eigvecs idx) (\<lambda>eigvecs'.
      bind_res (take_items eigvals idx) (\<lambda>eigvals'.
        Inr (eigvals', eigvecs'))))"

subsection \<open>projected_iteration\<close>

text \<open>
  The loop \<^verbatim>\<open>for _ in range(max_iter)\<close> for slot \<open>i\<close>, with its \<^verbatim>\<open>break\<close>; \<open>E\<close> is
  \<^verbatim>\<open>eigvecs\<close>.  After the \<^verbatim>\<open>break\<close>, \<open>v\<close> is the projected vector, not \<open>v_new\<close>.
\<close>

fun projected_loop :: "mat \<Rightarrow> mat \<Rightarrow> nat \<Rightarrow> nat \<Rightarrow> vec \<Rightarrow> error + vec" where
  "projected_loop A E i 0 v = Inr v"
| "projected_loop A E i (Suc n) v =
     bind_res (foldM_res (\<lambda>j proj_sum. bind_res (projection v (col E j)) (\<lambda>p.
                 Inr (vadd proj_sum p))) [0..<i] (replicate (length v) 0)) (\<lambda>proj_sum.
       let v = vsub v proj_sum in
       bind_res (matvec A v) (\<lambda>v_new.
       bind_res (normalize_vec v_new) (\<lambda>v_new.
         if list_all (\<lambda>d. \<bar>d\<bar> < 1 / 10 ^ 8) (vsub v_new v) then Inr v
         else projected_loop A E i n v_new)))"

text \<open>The body of \<^verbatim>\<open>for i in range(k)\<close> on the state \<open>(eigvecs, eigvals, world)\<close>.\<close>

definition projected_slot ::
    "mat \<Rightarrow> nat \<Rightarrow> nat \<Rightarrow> mat \<times> vec \<times> world \<Rightarrow> error + (mat \<times> vec \<times> world)" where
  "projected_slot A max_iter i s =
     (case s of (eigvecs, eigvals, w) \<Rightarrow>
       let (v, w1) = randn (nrows A) w in
       bind_res (projected_loop A eigvecs i max_iter v) (\<lambda>v.
       bind_res (rayleigh_quotient A v) (\<lambda>e.
       bind_res (set_col eigvecs i v) (\<lambda>eigvecs'.
       bind_res (set_item eigvals i e) (\<lambda>eigvals'.
         Inr (eigvecs', eigvals', w1))))))"

definition projected_iteration ::
    "mat \<Rightarrow> int \<Rightarrow> nat \<Rightarrow> bool \<Rightarrow> world \<Rightarrow> error + ((vec \<times> mat) \<times> world)" where
  "projected_iteration A k max_iter do_sort w =
     bind_res (assert_symmetric A) (\<lambda>_.
       if \<not> (k > 0 \<and> k \<le> int (nrows A))
       then Inl (AssertionError ''[!] k must be between 1 and {}.'')
       else
         let eigvecs = replicate (nrows A) (replicate (nat k) 0);
             eigvals = replicate (nrows A) 0
         in
         bind_res (foldM_res (projected_slot A max_iter) [0..<nat k] (eigvecs, eigvals, w))
           (\<lambda>(eigvecs, eigvals, w').
             if do_sort then bind_res (sort_eigs eigvals eigvecs) (\<lambda>r. Inr (r, w'))
             else Inr ((eigvals, eigvecs), w')))"

subsection \<open>hessenberg\<close>

text \<open>
  The slices \<^verbatim>\<open>A[r0:, j]\<close> and \<^verbatim>\<open>A[j, c0:M]\<close>, read and assigned.  The assigned
  vectors have the length of the slice by construction.
\<close>

definition col_from :: "mat \<Rightarrow> nat \<Rightarrow> nat \<Rightarrow> vec" where
  "col_from A r0 j = map (\<lambda>r. r ! j) (drop r0 A)"

definition set_col_from :: "mat \<Rightarrow> nat \<Rightarrow> nat \<Rightarrow> vec \<Rightarrow> mat" where
  "set_col_from A r0 j x = take r0 A @ map (\<lambda>(r, a). r[j := a]) (zip (drop r0 A) x)"

definition row_from :: "mat \<Rightarrow> nat \<Rightarrow> nat \<Rightarrow> nat \<Rightarrow> vec" where
  "row_from A j c0 M = take (M - c0) (drop c0 (A ! j))"

definition set_row_from :: "mat \<Rightarrow> nat \<Rightarrow> nat \<Rightarrow> nat \<Rightarrow> vec \<Rightarrow> mat" where
  "set_row_from A j c0 M x = A[j := take c0 (A ! j) @ x @ drop M (A ! j)]"

text \<open>
  The Householder vector of step \<open>i\<close>: \<^verbatim>\<open>a = A[i+1:, i]\<close>, \<^verbatim>\<open>c = utils.l2_norm(a)\<close>,
  \<^verbatim>\<open>s = utils.sign(a[0])\<close>, \<^verbatim>\<open>e = utils.basis_vec(0, len(a), flat=True)\<close>,
  \<^verbatim>\<open>v = a + s*c*e\<close>.
\<close>

definition householder_vec :: "env \<Rightarrow> mat \<Rightarrow> nat \<Rightarrow> error + vec" where
  "householder_vec env A i =
     (let a = col_from A (i + 1) i;
          c = l2_norm a
      in if a = [] then Inl IndexError
      else let s = env_sign env (a ! 0) in
        bind_res (basis_vec_flat 0 (int (length a))) (\<lambda>e.
          Inr (vadd a (smul (s * c) e))))"

text \<open>
  \<^verbatim>\<open>A = np.array(A)\<close> keeps the dtype of the caller's array, and so does
  \<^verbatim>\<open>np.zeros_like(A)\<close>.  An assignment into an array of integers converts the
  floating-point numbers assigned to integers by dropping their fractional part (the
  conversion rounds toward zero).  The dtype of the caller's array is a parameter of
  the routines that assign into such an array: \<open>Float64\<close>, NumPy's floating-point type,
  or \<open>Int64\<close>, its integer type (the entries of the array are then whole numbers).
  \<open>cast dt x\<close> is the vector that an assignment of \<open>x\<close> stores.
\<close>

datatype dtype = Float64 | Int64

definition trunc0 :: "real \<Rightarrow> real" where
  "trunc0 x = (if 0 \<le> x then of_int \<lfloor>x\<rfloor> else of_int \<lceil>x\<rceil>)"

definition cast :: "dtype \<Rightarrow> vec \<Rightarrow> vec" where
  "cast dt x = (case dt of Float64 \<Rightarrow> x | Int64 \<Rightarrow> map trunc0 x)"

text \<open>
  Left transform, column \<open>j\<close>:
  \<^verbatim>\<open>A[i+1:, j] = A[i+1:, j] - (2 * v.T @ A[i+1:, j]) / (v.T @ v) * v\<close>.
  Right transform, row \<open>j\<close>:
  \<^verbatim>\<open>A[j, i+1:M] = A[j, i+1:M] - 2 * ((A[j, i+1:M].T @ v) / (v.T @ v)) * v.T\<close>.
\<close>

definition left_update :: "dtype \<Rightarrow> vec \<Rightarrow> nat \<Rightarrow> nat \<Rightarrow> mat \<Rightarrow> error + mat" where
  "left_update dt v i j A =
     (let x = col_from A (i + 1) j in
      bind_res (fdiv (dot (smul 2 v) x) (dot v v)) (\<lambda>q.
        Inr (set_col_from A (i + 1) j (cast dt (vsub x (smul q v))))))"

definition right_update :: "dtype \<Rightarrow> vec \<Rightarrow> nat \<Rightarrow> nat \<Rightarrow> nat \<Rightarrow> mat \<Rightarrow> error + mat" where
  "right_update dt v i M j A =
     (let x = row_from A j (i + 1) M in
      bind_res (fdiv (dot x v) (dot v v)) (\<lambda>q.
        Inr (set_row_from A j (i + 1) M (cast dt (vsub x (smul (2 * q) v))))))"

text \<open>The body of \<^verbatim>\<open>for i in range(M-2)\<close> on the state \<open>(A, vs)\<close>.\<close>

definition hess_step ::
    "env \<Rightarrow> dtype \<Rightarrow> bool \<Rightarrow> nat \<Rightarrow> nat \<Rightarrow> mat \<times> vec list \<Rightarrow> error + (mat \<times> vec list)" where
  "hess_step env dt is_symm M i s =
     (case s of (A, vs) \<Rightarrow>
       bind_res (householder_vec env A i) (\<lambda>v.
       bind_res (foldM_res (left_update dt v i) [i..<M] A) (\<lambda>A1.
       bind_res (foldM_res (right_update dt v i M) [(if is_symm then i else 0)..<M] A1) (\<lambda>A2.
         Inr (A2, vs @ [v])))))"

text \<open>
  The product of the reflections, for \<^verbatim>\<open>calc_q=True\<close>:
  \<^verbatim>\<open>Q[M-j-2:, i] -= (2 * v.T @ Q[M-j-2:, i]) / (v.T @ v) * v\<close> for every column \<open>i\<close> and
  every \<^verbatim>\<open>j, v in enumerate(reversed(vs))\<close>.
\<close>

definition q_update :: "nat \<Rightarrow> nat \<Rightarrow> nat \<times> vec \<Rightarrow> mat \<Rightarrow> error + mat" where
  "q_update M i jv Q =
     (case jv of (j, v) \<Rightarrow>
       let x = col_from Q (M - j - 2) i in
       bind_res (fdiv (dot (smul 2 v) x) (dot v v)) (\<lambda>q.
         Inr (set_col_from Q (M - j - 2) i (vsub x (smul q v)))))"

definition calc_Q :: "nat \<Rightarrow> vec list \<Rightarrow> error + mat" where
  "calc_Q M vs =
     foldM_res (\<lambda>i Q. foldM_res (q_update M i) (zip [0..<length vs] (rev vs)) Q)
       [0..<M] (eye M)"

text \<open>
  \<^verbatim>\<open>hessenberg(A, calc_q)\<close> returns \<open>A\<close>, or \<open>(A, Q)\<close> when \<^verbatim>\<open>calc_q\<close> is set: the second
  component is \<open>None\<close> or \<open>Some Q\<close>.  \<^verbatim>\<open>A = np.array(A)\<close> is a copy of the caller's
  array, of its dtype \<open>dt\<close>; all the writes go to it.  \<^verbatim>\<open>Q = np.eye(M)\<close> is an array of
  floating-point numbers.
\<close>

definition hessenberg :: "env \<Rightarrow> dtype \<Rightarrow> mat \<Rightarrow> bool \<Rightarrow> error + (mat \<times> mat option)" where
  "hessenberg env dt A calc_q =
     (if \<not> is_square A then Inl (AssertionError ''[!] Matrix must be square.'')
      else
        bind_res (is_symmetric A) (\<lambda>is_symm.
          let M = nrows A in
          bind_res (foldM_res (hess_step env dt is_symm M) [0..<M - 2] (A, [])) (\<lambda>(A', vs).
            if calc_q then bind_res (calc_Q M vs) (\<lambda>Q. Inr (A', Some Q))
            else Inr (A', None))))"

subsection \<open>qr_algorithm and eig\<close>

text \<open>
  The first three statements of the body of \<^verbatim>\<open>for k in range(1000)\<close>:
  \<^verbatim>\<open>mu = A[M-1, M-1]\<close>, \<^verbatim>\<open>Q, R = QR(A - mu * np.eye(M)).decompose()\<close>,
  \<^verbatim>\<open>A_new = R @ Q + mu * np.eye(M)\<close>.
\<close>

definition qr_body :: "env \<Rightarrow> nat \<Rightarrow> mat \<Rightarrow> world \<Rightarrow> error + (mat \<times> world)" where
  "qr_body env M A w =
     bind_res (get_item2 A (int M - 1) (int M - 1)) (\<lambda>mu.
     bind_res (broadcast2 (\<lambda>a b. a - b) A (msmul mu (eye M))) (\<lambda>B.
     bind_res (call_qr env B w) (\<lambda>((Q, R), w1).
     bind_res (matmul R Q) (\<lambda>RQ.
     bind_res (broadcast2 (\<lambda>a b. a + b) RQ (msmul mu (eye M))) (\<lambda>A_new.
       Inr (A_new, w1))))))"

text \<open>
  \<^verbatim>\<open>np.all(np.abs(A_new - A) < 1e-8)\<close>.
\<close>

definition all_close :: "mat \<Rightarrow> mat \<Rightarrow> error + bool" where
  "all_close A_new A =
     bind_res (broadcast2 (\<lambda>a b. \<bar>a - b\<bar> < 1 / 10 ^ 8) A_new A) (\<lambda>C.
       Inr (list_all (list_all (\<lambda>b. b)) C))"

text \<open>
  The loop \<^verbatim>\<open>for k in range(1000)\<close> with its \<^verbatim>\<open>break\<close>, the third argument counting
  the iterations that are left.  After the \<^verbatim>\<open>break\<close>, \<open>A\<close> is the iterate before
  \<open>A_new\<close>.
\<close>

fun qr_loop :: "env \<Rightarrow> nat \<Rightarrow> nat \<Rightarrow> mat \<Rightarrow> world \<Rightarrow> error + (mat \<times> world)" where
  "qr_loop env M 0 A w = Inr (A, w)"
| "qr_loop env M (Suc k) A w =
     bind_res (qr_body env M A w) (\<lambda>(A_new, w1).
     bind_res (all_close A_new A) (\<lambda>stop.
       if stop then Inr (A, w1)
       else qr_loop env M k A_new w1))"

text \<open>
  Whether the loop reaches \<^verbatim>\<open>A = A_new\<close>, that is, whether its first pass does not end
  with \<^verbatim>\<open>break\<close>.  If it does not, the name \<open>A\<close> is still bound, after the loop, to the
  array the loop started with, an array of the caller's dtype; otherwise to an array
  of floating-point numbers.
\<close>

definition qr_rebinds :: "env \<Rightarrow> nat \<Rightarrow> mat \<Rightarrow> world \<Rightarrow> bool" where
  "qr_rebinds env M A w =
     (case qr_body env M A w of
        Inl e \<Rightarrow> False
      | Inr (A_new, w1) \<Rightarrow> all_close A_new A = Inr False)"

text \<open>
  The body of \<^verbatim>\<open>for i, mu in enumerate(mus)\<close> on \<open>(eigvecs, eigvals, world)\<close>; \<open>edt\<close> is
  the dtype of \<^verbatim>\<open>eigvecs = np.zeros_like(A)\<close>.
\<close>

definition eig_slot ::
    "env \<Rightarrow> mat \<Rightarrow> dtype \<Rightarrow> nat \<times> real \<Rightarrow> mat \<times> vec \<times> world \<Rightarrow> error + (mat \<times> vec \<times> world)" where
  "eig_slot env backup edt imu s =
     (case (imu, s) of ((i, mu), (eigvecs, eigvals, w)) \<Rightarrow>
       bind_res (rayleigh_quotient_iteration env backup mu 1 w) (\<lambda>((eigval, eigvec), w1).
       bind_res (set_col eigvecs i (cast edt eigvec)) (\<lambda>eigvecs'.
       bind_res (set_item eigvals i eigval) (\<lambda>eigvals'.
         Inr (eigvecs', eigvals', w1)))))"

definition qr_algorithm ::
    "env \<Rightarrow> dtype \<Rightarrow> mat \<Rightarrow> bool \<Rightarrow> bool \<Rightarrow> world \<Rightarrow> error + ((vec \<times> mat) \<times> world)" where
  "qr_algorithm env dt A hess do_sort w =
     bind_res (assert_symmetric A) (\<lambda>_.
       let backup = A in
       bind_res (if hess then bind_res (hessenberg env dt A False) (\<lambda>(H, _). Inr H)
                 else Inr A) (\<lambda>A.
         let M = nrows A;
             edt = (if qr_rebinds env M A w then Float64 else dt)
         in
         bind_res (qr_loop env M 1000 A w) (\<lambda>(A, w1).
           let mus = diag A;
               eigvecs = map (map (\<lambda>_. 0)) A;
               eigvals = replicate (nrows A) 0
           in
           bind_res (foldM_res (eig_slot env backup edt) (zip [0..<length mus] mus)
                       (eigvecs, eigvals, w1)) (\<lambda>(eigvecs, eigvals, w2).
             if do_sort then bind_res (sort_eigs eigvals eigvecs) (\<lambda>r. Inr (r, w2))
             else Inr ((eigvals, eigvecs), w2)))))"

definition eig ::
    "env \<Rightarrow> dtype \<Rightarrow> mat \<Rightarrow> bool \<Rightarrow> world \<Rightarrow> error + ((vec \<times> mat) \<times> world)" where
  "eig env dt A do_sort w =
     bind_res (qr_algorithm env dt A True do_sort w) (\<lambda>((eigvals, eigvecs), w').
       Inr ((eigvals, eigvecs), w'))"

section \<open>The arrays as mutable objects\<close>

text \<open>
  A NumPy array is an object: a function gets a reference to its caller's array, and an
  assignment through \<^verbatim>\<open>A[...] = x\<close> or \<^verbatim>\<open>v /= c\<close> changes the object for everyone who
  holds a reference.  To state what a call does to its caller's arrays, the routines
  are written a second time over a heap of arrays: a name bound to an array is an
  address; \<^verbatim>\<open>np.array(A)\<close>, \<^verbatim>\<open>A.copy()\<close>, \<^verbatim>\<open>np.zeros(...)\<close>, \<^verbatim>\<open>A @ v\<close> and
  the other expressions that build an array allocate a new one; an assignment through an
  array overwrites the cell at its address; \<^verbatim>\<open>v = v_new\<close> rebinds a name and copies
  nothing.  Every read of an array goes to the heap.  Arrays that are built and read
  but never assigned through (the value of \<^verbatim>\<open>A - mu * np.eye(M)\<close>, the Householder
  vector) stay values.  The helpers of \<^verbatim>\<open>linalg.utils\<close> and the collaborators of the
  environment are functions of the values of their arguments: the spec describes the
  utility layer as "pure functions, no shared state", and no collaborator is handed the
  caller's matrix.
\<close>

record heap =
  next_addr :: nat
  cell :: "nat \<Rightarrow> ndarray option"

definition alloc :: "ndarray \<Rightarrow> heap \<Rightarrow> nat \<times> heap" where
  "alloc x h =
     (next_addr h, h\<lparr>next_addr := Suc (next_addr h), cell := (cell h)(next_addr h \<mapsto> x)\<rparr>)"






subsection \<open>hessenberg on the heap\<close>



subsection \<open>The single-eigenpair iterations on the heap\<close>







subsection \<open>projected_iteration on the heap\<close>






subsection \<open>qr_algorithm on the heap\<close>






text \<open>
  \<open>frame h h'\<close>: every array that exists in \<open>h\<close> is the same in \<open>h'\<close>; arrays may have
  been added.  In a well-formed heap nothing lives at or beyond \<open>next_addr\<close>.
\<close>

definition frame :: "heap \<Rightarrow> heap \<Rightarrow> bool" where
  "frame h h' = (next_addr h \<le> next_addr h' \<and> (\<forall>b<next_addr h. cell h' b = cell h b))"

definition wf_heap :: "heap \<Rightarrow> bool" where
  "wf_heap h = (\<forall>b. next_addr h \<le> b \<longrightarrow> cell h b = None)"

section \<open>Notions used to state the properties\<close>

text \<open>The quadratic form \<open>x\<^sup>T A x\<close>, written as the double sum.\<close>

definition quad_form :: "mat \<Rightarrow> vec \<Rightarrow> real" where
  "quad_form A x = (\<Sum>j<length x. (\<Sum>i<length x. x ! i * A ! i ! j) * x ! j)"

text \<open>
  The matrix-vector product without the shape check, and one step of the power method,
  \<open>v \<mapsto> A v / \<parallel>A v\<parallel>\<close>, as a function on real vectors.
\<close>

definition mv :: "mat \<Rightarrow> vec \<Rightarrow> vec" where
  "mv A v = map (\<lambda>r. dot r v) A"

definition power_step :: "mat \<Rightarrow> vec \<Rightarrow> vec" where
  "power_step A v = map (\<lambda>x. x / l2_norm (mv A v)) (mv A v)"

text \<open>
  The vectors handed to \<^verbatim>\<open>solve(PLU, v)\<close> by the loop of \<^verbatim>\<open>inverse_iteration\<close>, one
  after the other: the start vector, then each solution divided by its L2 norm.  The
  number of \<^verbatim>\<open>LU(...).decompose()\<close> calls in a log.
\<close>

fun inverse_inputs :: "env \<Rightarrow> plu \<Rightarrow> nat \<Rightarrow> vec \<Rightarrow> vec list" where
  "inverse_inputs env PLU 0 v = []"
| "inverse_inputs env PLU (Suc k) v =
     v # (case env_solve_lu env PLU v of
            Inl _ \<Rightarrow> []
          | Inr v1 \<Rightarrow> inverse_inputs env PLU k (map (\<lambda>x. x / l2_norm v1) v1))"

fun lu_calls :: "call list \<Rightarrow> nat" where
  "lu_calls [] = 0"
| "lu_calls (CallLU A # cs) = Suc (lu_calls cs)"
| "lu_calls (c # cs) = lu_calls cs"

text \<open>
  The matrix product without the shape check; orthogonal matrices; \<open>B\<close> is an orthogonal
  similarity transform of \<open>A\<close> when \<open>B = P\<^sup>T A P\<close> for an orthogonal \<open>P\<close> (then \<open>A\<close> and
  \<open>B\<close> have the same eigenvalues with the same multiplicities).  The number of
  \<^verbatim>\<open>QR(...).decompose()\<close> calls in a log.
\<close>

definition mm :: "mat \<Rightarrow> mat \<Rightarrow> mat" where
  "mm A B = map (\<lambda>r. map (\<lambda>j. dot r (col B j)) [0..<ncols B]) A"

definition orthogonal :: "nat \<Rightarrow> mat \<Rightarrow> bool" where
  "orthogonal n P =
     (is_mat n n P \<and> mm (transpose_m P) P = eye n \<and> mm P (transpose_m P) = eye n)"

definition orth_similar :: "nat \<Rightarrow> mat \<Rightarrow> mat \<Rightarrow> bool" where
  "orth_similar n A B = (\<exists>P. orthogonal n P \<and> B = mm (mm (transpose_m P) A) P)"

text \<open>
  The elementwise combination of two \<open>n\<close>-by-\<open>n\<close> matrices, and the matrix that
  \<^verbatim>\<open>qr_algorithm\<close> hands to \<^verbatim>\<open>QR\<close>, namely \<open>A - mu I\<close> with \<open>mu\<close> the bottom-right entry of
  \<open>A\<close>.
\<close>

definition mzip :: "(real \<Rightarrow> real \<Rightarrow> 'a) \<Rightarrow> nat \<Rightarrow> mat \<Rightarrow> mat \<Rightarrow> 'a list list" where
  "mzip f n A B = map (\<lambda>i. map (\<lambda>j. f (A ! i ! j) (B ! i ! j)) [0..<n]) [0..<n]"

definition shifted :: "nat \<Rightarrow> mat \<Rightarrow> mat" where
  "shifted M A = mzip (\<lambda>a b. a - b) M A (msmul (A ! (M - 1) ! (M - 1)) (eye M))"

text \<open>
  The step of the shifted QR iteration as a function of the iterate: with \<open>(Q, R)\<close> the
  factors that \<^verbatim>\<open>QR\<close> returns for \<open>A - mu I\<close>, the next iterate is \<open>R Q + mu I\<close> (where
  \<^verbatim>\<open>QR\<close> fails there is no next iterate, and the function returns \<open>A\<close>).  Two iterates
  are close when every entry differs by less than \<open>1e-8\<close>.
\<close>

definition qr_next :: "env \<Rightarrow> nat \<Rightarrow> mat \<Rightarrow> mat" where
  "qr_next env M A =
     (case env_qr env (shifted M A) of
        Inr (Q, R) \<Rightarrow> mzip (\<lambda>a b. a + b) M (mm R Q) (msmul (A ! (M - 1) ! (M - 1)) (eye M))
      | Inl e \<Rightarrow> A)"

definition close_to :: "nat \<Rightarrow> mat \<Rightarrow> mat \<Rightarrow> bool" where
  "close_to M X Y = list_all (list_all (\<lambda>b. b)) (mzip (\<lambda>a b. \<bar>a - b\<bar> < 1 / 10 ^ 8) M X Y)"









section \<open>Basic facts\<close>

lemma bind_res_Inl: "bind_res (Inl e) f = Inl e"
  by (simp add: bind_res_def)

lemma bind_res_Inr: "bind_res (Inr x) f = f x"
  by (simp add: bind_res_def)

lemma bind_res_eq_Inr:
  "bind_res m f = Inr y \<longleftrightarrow> (\<exists>x. m = Inr x \<and> f x = Inr y)"
  by (cases m) (simp_all add: bind_res_def)

lemma dot_sum:
  assumes "length x = length y"
  shows "dot x y = (\<Sum>i<length x. x ! i * y ! i)"
proof -
  have "dot x y = (\<Sum>i = 0..<length (zip x y). (map (\<lambda>(a, b). a * b) (zip x y)) ! i)"
    unfolding dot_def by (simp add: sum_list_sum_nth)
  also have "\<dots> = (\<Sum>i = 0..<length x. x ! i * y ! i)"
    using assms by (intro sum.cong) simp_all
  finally show ?thesis by (simp add: atLeast0LessThan)
qed

lemma dot_self_nonneg: "0 \<le> dot x x"
  unfolding dot_def by (induction x) simp_all

lemma dot_self_zero_iff: "dot x x = 0 \<longleftrightarrow> (\<forall>a\<in>set x. a = 0)"
proof (induction x)
  case Nil
  then show ?case by (simp add: dot_def)
next
  case (Cons a x)
  have "dot (a # x) (a # x) = a * a + dot x x" by (simp add: dot_def)
  moreover have "0 \<le> dot x x" by (rule dot_self_nonneg)
  moreover have "0 \<le> a * a" by simp
  ultimately have "dot (a # x) (a # x) = 0 \<longleftrightarrow> a = 0 \<and> dot x x = 0"
    by (smt (verit) mult_eq_0_iff)
  with Cons show ?case by simp
qed

lemma is_mat_ncols: "is_mat m n A \<Longrightarrow> 0 < m \<Longrightarrow> ncols A = n"
  by (cases A) (simp_all add: is_mat_def ncols_def)

lemma is_mat_nrows: "is_mat m n A \<Longrightarrow> nrows A = m"
  by (simp add: is_mat_def nrows_def)

lemma is_mat_row: "is_mat m n A \<Longrightarrow> i < m \<Longrightarrow> length (A ! i) = n"
  by (simp add: is_mat_def list_all_length)

lemma xTAx_eq:
  assumes A: "is_mat n n A" and x: "length x = n"
  shows "bind_res (vecmat x A) (\<lambda>xA. vdot xA x) = Inr (quad_form A x)"
proof (cases "n = 0")
  case True
  with A x show ?thesis
    by (simp add: vecmat_def vdot_def is_mat_def nrows_def ncols_def bind_res_Inr dot_def quad_form_def)
next
  case False
  then have nc: "ncols A = n" using A by (simp add: is_mat_ncols)
  have nr: "nrows A = n" using A by (simp add: is_mat_nrows)
  let ?xA = "map (\<lambda>j. dot x (col A j)) [0..<n]"
  have len: "length ?xA = length x" using x by simp
  have colj: "dot x (col A j) = (\<Sum>i<n. x ! i * A ! i ! j)" for j
  proof -
    have "length x = length (col A j)" using x A by (simp add: col_def is_mat_def)
    then have "dot x (col A j) = (\<Sum>i<length x. x ! i * col A j ! i)" by (rule dot_sum)
    also have "\<dots> = (\<Sum>i<n. x ! i * A ! i ! j)"
      using x A by (intro sum.cong) (simp_all add: col_def is_mat_def)
    finally show ?thesis .
  qed
  have "dot ?xA x = (\<Sum>j<length ?xA. ?xA ! j * x ! j)" using len by (rule dot_sum)
  also have "\<dots> = (\<Sum>j<n. (\<Sum>i<n. x ! i * A ! i ! j) * x ! j)"
    by (intro sum.cong) (simp_all add: colj)
  finally have "dot ?xA x = quad_form A x" using x by (simp add: quad_form_def)
  then show ?thesis using x nc nr len
    by (simp add: vecmat_def vdot_def bind_res_Inr)
qed

lemma rayleigh_quotient_eq:
  assumes "is_mat n n A" and "length x = n"
  shows "rayleigh_quotient A x =
    (if isclose (dot x x) 1 then Inr (quad_form A x) else fdiv (quad_form A x) (dot x x))"
proof -
  have "rayleigh_quotient A x =
      bind_res (bind_res (vecmat x A) (\<lambda>xA. vdot xA x)) (\<lambda>num.
        if isclose (dot x x) 1 then Inr num else fdiv num (dot x x))"
    unfolding rayleigh_quotient_def
    by (cases "vecmat x A") (simp_all add: bind_res_def Let_def)
  then show ?thesis using xTAx_eq[OF assms] by (simp add: bind_res_Inr)
qed

section \<open>rayleigh_quotient\<close>

text \<open>
  Claim C4.  For a square matrix \<open>A\<close> and a nonzero vector \<open>x\<close> of matching length,
  \<^verbatim>\<open>rayleigh_quotient(A, x)\<close> is \<open>x\<^sup>T A x / x\<^sup>T x\<close> whenever \<open>x\<^sup>T x\<close> is not within
  \<^verbatim>\<open>np.isclose\<close>'s tolerance of 1; when it is, the division is skipped and the
  numerator \<open>x\<^sup>T A x\<close> is returned; and when \<open>x\<^sup>T x = 1\<close> exactly, what is returned is
  again \<open>x\<^sup>T A x / x\<^sup>T x\<close>: the two forms agree.
\<close>

theorem rayleigh_quotient_formula:
  assumes "is_mat n n A" and "length x = n" and "\<exists>i<n. x ! i \<noteq> 0"
  shows "(\<not> isclose (dot x x) 1 \<longrightarrow> rayleigh_quotient A x = Inr (quad_form A x / dot x x))
       \<and> (isclose (dot x x) 1 \<longrightarrow> rayleigh_quotient A x = Inr (quad_form A x))
       \<and> (dot x x = 1 \<longrightarrow> rayleigh_quotient A x = Inr (quad_form A x / dot x x))"
proof -
  from assms(2,3) have "\<not> (\<forall>a\<in>set x. a = 0)"
    by (metis nth_mem)
  then have nz: "dot x x \<noteq> 0" by (simp add: dot_self_zero_iff)
  have one: "isclose 1 1" by (simp add: isclose_def)
  show ?thesis
    using rayleigh_quotient_eq[OF assms(1,2)] nz one by (auto simp: fdiv_def)
qed

theorem rayleigh_quotient_formula_witness:
  "is_mat 2 2 [[2, 1], [1, 3]] \<and> length [1, 2 :: real] = 2 \<and> [1, 2 :: real] ! 0 \<noteq> 0
   \<and> \<not> isclose (dot [1, 2] [1, 2]) 1
   \<and> rayleigh_quotient [[2, 1], [1, 3]] [1, 2] = Inr (18 / 5)
   \<and> isclose (dot [1, 0] [1, 0]) 1
   \<and> rayleigh_quotient [[2, 1], [1, 3]] [1, 0] = Inr 2"
proof -
  have m: "is_mat 2 2 [[2, 1], [1, 3]]" by (simp add: is_mat_def)
  have q1: "quad_form [[2, 1], [1, 3]] [1, 2] = 18"
    by (simp add: quad_form_def lessThan_Suc numeral_2_eq_2)
  have q2: "quad_form [[2, 1], [1, 3]] [1, 0] = 2"
    by (simp add: quad_form_def lessThan_Suc numeral_2_eq_2)
  have d1: "dot [1, 2] [1, 2] = 5" by (simp add: dot_def)
  have d2: "dot [1, 0] [1, 0] = 1" by (simp add: dot_def)
  have c1: "\<not> isclose (dot [1, 2] [1, 2]) 1" by (simp add: d1 isclose_def)
  have c2: "isclose (dot [1, 0] [1, 0]) 1" by (simp add: d2 isclose_def)
  have e1: "\<exists>i<2. [1, 2 :: real] ! i \<noteq> 0" by (rule exI[of _ 0]) simp
  have e2: "\<exists>i<2. [1, 0 :: real] ! i \<noteq> 0" by (rule exI[of _ 0]) simp
  from rayleigh_quotient_formula[OF m _ e1] c1 q1 d1
  have r1: "rayleigh_quotient [[2, 1], [1, 3]] [1, 2] = Inr (18 / 5)" by simp
  from rayleigh_quotient_formula[OF m _ e2] c2 q2
  have r2: "rayleigh_quotient [[2, 1], [1, 3]] [1, 0] = Inr 2" by simp
  show ?thesis using m c1 c2 r1 r2 by simp
qed

section \<open>eig\<close>

text \<open>
  Claim C8.  For every matrix \<open>A\<close> of either dtype, every value of \<open>sort\<close>, every
  environment and every state of the world, \<^verbatim>\<open>eig(A, sort)\<close> is exactly
  \<^verbatim>\<open>qr_algorithm(A, hess=True, sort=sort)\<close>: the same result or the same error, and
  the same world afterwards.
\<close>

theorem eig_is_qr_algorithm_hess:
  "eig env dt A do_sort w = qr_algorithm env dt A True do_sort w"
  by (cases "qr_algorithm env dt A True do_sort w") (auto simp: eig_def bind_res_def)


section \<open>norm\<close>

lemma ndim_flatten: "ndim (flatten x) = 1"
  by (cases x) simp_all

lemma norm_p_never_rejects_shape:
  "norm_p x p = (if p \<ge> 1 then Inr (cur_sum (norm_loop KahanSum_init (entries (flatten x)) p) powr (1 / p))
     else Inl (AssertionError ''p must be >= 1''))"
  by (simp add: norm_p_def ndim_flatten)

text \<open>
  Claim C2.  The claim says that \<^verbatim>\<open>norm\<close> raises on every two-dimensional input.  The
  code flattens its argument before it asserts \<^verbatim>\<open>v.ndim == 1\<close>, so the assertion
  "x must be 1D" can never fail: on the 2-by-2 matrix with rows \<open>[1, 2]\<close> and \<open>[3, 4]\<close>
  and \<open>p = 1\<close> the code returns 10, the 1-norm of the flattened entries.
\<close>

theorem norm_p_matrix_returns:
  "norm_p (Arr2 [[1, 2], [3, 4]]) 1 = Inr 10"
  by (simp add: norm_p_def KahanSum_init_def KahanSum_add_def cur_sum_def)

section \<open>basis_vec\<close>

text \<open>
  Claim C10.  For \<open>n \<ge> 1\<close> and a negative index \<open>k\<close> with \<open>-n \<le> k < 0\<close>,
  \<^verbatim>\<open>basis_vec(k, n)\<close> does not fail: the guard \<open>k < n\<close> holds, and the result is the
  \<open>n\<close>-by-1 array of zeros with the entry at position \<open>n + k\<close> set to 1.
\<close>

theorem basis_vec_negative_index:
  assumes "1 \<le> n" and "- n \<le> k" and "k < 0"
  shows "basis_vec k n = Inr ((replicate (nat n) [0])[nat (n + k) := [1]])
       \<and> is_mat (nat n) 1 ((replicate (nat n) [0])[nat (n + k) := [1]])
       \<and> ((replicate (nat n) [0])[nat (n + k) := [1]]) ! nat (n + k) = [1]"
proof -
  have idx: "py_index k (nat n) = Inr (nat (n + k))"
    using assms by (simp add: py_index_def)
  have lt: "nat (n + k) < nat n"
    using assms by linarith
  have "basis_vec k n = Inr ((replicate (nat n) [0])[nat (n + k) := [1]])"
    using assms idx by (simp add: basis_vec_def bind_res_Inr)
  moreover have "is_mat (nat n) 1 ((replicate (nat n) [0])[nat (n + k) := [1]])"
    by (auto simp: is_mat_def list_all_iff dest!: set_update_subset_insert[THEN subsetD])
  moreover have "((replicate (nat n) [0])[nat (n + k) := [1]]) ! nat (n + k) = [1]"
    using lt by simp
  ultimately show ?thesis by blast
qed

theorem basis_vec_negative_index_witness:
  "(1::int) \<le> 3 \<and> - 3 \<le> (- 1 :: int) \<and> (- 1 :: int) < 0
   \<and> basis_vec (- 1) 3 = Inr [[0], [0], [1]]
   \<and> is_mat 3 1 [[0], [0], [1]]"
  using basis_vec_negative_index [of 3 "- 1"]
  by (simp add: numeral_3_eq_3)

section \<open>power_iteration\<close>


lemma is_mat_square_ncols: "is_mat n n A \<Longrightarrow> ncols A = n"
  by (cases A) (simp_all add: is_mat_def ncols_def)

lemma matvec_square:
  "is_mat n n A \<Longrightarrow> length v = n \<Longrightarrow> matvec A v = Inr (mv A v)"
  by (simp add: matvec_def mv_def is_mat_square_ncols)

lemma length_mv: "length (mv A v) = length A"
  by (simp add: mv_def)

lemma nonzero_entry_dot: "length x = n \<Longrightarrow> \<exists>i<n. x ! i \<noteq> 0 \<Longrightarrow> dot x x \<noteq> 0"
  by (metis dot_self_zero_iff nth_mem)

lemma l2_norm_zero_iff: "l2_norm x = 0 \<longleftrightarrow> dot x x = 0"
  by (simp add: l2_norm_def)

lemma dot_scale_both: "dot (map (\<lambda>a. a / c) x) (map (\<lambda>a. a / c) x) = dot x x / (c * c)"
  unfolding dot_def by (induction x) (simp_all add: add_divide_distrib)

lemma l2_norm_normalized:
  assumes "dot w w \<noteq> 0"
  shows "l2_norm (map (\<lambda>a. a / l2_norm w) w) = 1"
proof -
  have pos: "0 < dot w w" using assms dot_self_nonneg[of w] by simp
  have "l2_norm w * l2_norm w = dot w w"
    using pos by (simp add: l2_norm_def)
  then have "dot (map (\<lambda>a. a / l2_norm w) w) (map (\<lambda>a. a / l2_norm w) w) = 1"
    using assms by (simp add: dot_scale_both)
  then show ?thesis by (simp add: l2_norm_def)
qed

lemma power_body:
  assumes "is_mat n n A" and "length v = n" and "\<exists>i<n. mv A v ! i \<noteq> 0"
  shows "bind_res (matvec A v) (\<lambda>v1. bind_res (vdiv v1 (l2_norm v1)) f) = f (power_step A v)"
    and "l2_norm (power_step A v) = 1"
    and "length (power_step A v) = n"
proof -
  have len: "length (mv A v) = n" using assms(1) by (simp add: length_mv is_mat_def)
  have nz: "dot (mv A v) (mv A v) \<noteq> 0" using len assms(3) by (rule nonzero_entry_dot)
  then have "l2_norm (mv A v) \<noteq> 0" by (simp add: l2_norm_zero_iff)
  then have "vdiv (mv A v) (l2_norm (mv A v)) = Inr (power_step A v)"
    by (simp add: vdiv_def power_step_def)
  then show "bind_res (matvec A v) (\<lambda>v1. bind_res (vdiv v1 (l2_norm v1)) f) = f (power_step A v)"
    using matvec_square[OF assms(1,2)] by (simp add: bind_res_Inr)
  show "l2_norm (power_step A v) = 1"
    unfolding power_step_def using nz by (rule l2_norm_normalized)
  show "length (power_step A v) = n" using len by (simp add: power_step_def)
qed

lemma power_loop_funpow:
  assumes "is_mat n n A"
  shows "length v = n \<Longrightarrow> \<forall>j<k. \<exists>i<n. mv A ((power_step A ^^ j) v) ! i \<noteq> 0
    \<Longrightarrow> power_loop A k v = Inr ((power_step A ^^ k) v)"
proof (induction k arbitrary: v)
  case 0
  then show ?case by simp
next
  case (Suc k)
  from Suc.prems(2) have first: "\<exists>i<n. mv A v ! i \<noteq> 0" by force
  have rest: "\<forall>j<k. \<exists>i<n. mv A ((power_step A ^^ j) (power_step A v)) ! i \<noteq> 0"
  proof (intro allI impI)
    fix j assume "j < k"
    then have "Suc j < Suc k" by simp
    with Suc.prems(2) have "\<exists>i<n. mv A ((power_step A ^^ Suc j) v) ! i \<noteq> 0" by blast
    then show "\<exists>i<n. mv A ((power_step A ^^ j) (power_step A v)) ! i \<noteq> 0"
      by (simp only: funpow_Suc_right o_apply)
  qed
  have "power_loop A (Suc k) v = power_loop A k (power_step A v)"
    using power_body(1)[OF assms Suc.prems(1) first] by simp
  also have "\<dots> = Inr ((power_step A ^^ k) (power_step A v))"
    using Suc.IH[OF power_body(3)[OF assms Suc.prems(1) first] rest] .
  finally show ?case by (simp add: funpow_swap1)
qed

lemma funpow_power_step_length:
  "is_mat n n A \<Longrightarrow> length v = n \<Longrightarrow> length ((power_step A ^^ k) v) = n"
  by (induction k) (simp_all add: power_step_def length_mv is_mat_def)

lemma assert_symmetric_ok: "is_symmetric A = Inr True \<Longrightarrow> assert_symmetric A = Inr ()"
  by (simp add: assert_symmetric_def bind_res_Inr)

lemma randn_length: "length (fst (randn n w)) = n"
  by (simp add: randn_def)

text \<open>
  While no iterate has a zero image, the loop is \<open>max_iter\<close> applications of
  \<open>v \<mapsto> A v / \<parallel>A v\<parallel>\<close>.
\<close>

lemma power_iteration_funpow:
  assumes A: "is_mat n n A" and sym: "is_symmetric A = Inr True" and it: "1 \<le> max_iter"
    and nz: "\<forall>j<max_iter. \<exists>i<n. mv A ((power_step A ^^ j) (fst (randn n w))) ! i \<noteq> 0"
  shows "power_iteration A max_iter w =
           Inr ((quad_form A ((power_step A ^^ max_iter) (fst (randn n w))),
                 (power_step A ^^ max_iter) (fst (randn n w))), snd (randn n w))
       \<and> rayleigh_quotient A ((power_step A ^^ max_iter) (fst (randn n w)))
           = Inr (quad_form A ((power_step A ^^ max_iter) (fst (randn n w))))
       \<and> l2_norm ((power_step A ^^ max_iter) (fst (randn n w))) = 1"
proof -
  let ?start = "fst (randn n w)"
  let ?v = "(power_step A ^^ max_iter) ?start"
  obtain m where m: "max_iter = Suc m" using it by (cases max_iter) simp_all
  let ?u = "(power_step A ^^ m) ?start"
  have lu: "length ?u = n" using A randn_length by (rule funpow_power_step_length)
  have nzu: "\<exists>i<n. mv A ?u ! i \<noteq> 0" using nz m by simp
  have v: "?v = power_step A ?u" by (simp add: m)
  have norm1: "l2_norm ?v = 1" unfolding v by (rule power_body(2)[OF A lu nzu])
  have lv: "length ?v = n" using A randn_length by (rule funpow_power_step_length)
  have "dot ?v ?v = 1" using norm1 by (simp add: l2_norm_def)
  then have close: "isclose (dot ?v ?v) 1" by (simp add: isclose_def)
  have rq: "rayleigh_quotient A ?v = Inr (quad_form A ?v)"
    using rayleigh_quotient_eq[OF A lv] close by simp
  have loop: "power_loop A max_iter ?start = Inr ?v"
    using A randn_length nz by (rule power_loop_funpow)
  have nr: "nrows A = n" using A by (simp add: is_mat_def nrows_def)
  have "power_iteration A max_iter w = Inr ((quad_form A ?v, ?v), snd (randn n w))"
    unfolding power_iteration_def
    by (simp add: assert_symmetric_ok[OF sym] bind_res_Inr nr case_prod_unfold loop rq Let_def)
  with rq norm1 show ?thesis by simp
qed

section \<open>inverse_iteration\<close>


lemma lu_calls_append: "lu_calls (xs @ ys) = lu_calls xs + lu_calls ys"
  by (induction xs rule: lu_calls.induct) simp_all

lemma lu_calls_solves: "lu_calls (map (CallSolveLU f) vs) = 0"
  by (induction vs) simp_all

lemma inverse_loop_log:
  "inverse_loop env PLU k v w = Inr (v', w') \<Longrightarrow>
     calls w' = calls w @ map (CallSolveLU PLU) (inverse_inputs env PLU k v)
   \<and> length (inverse_inputs env PLU k v) = k \<and> rng w' = rng w"
proof (induction k arbitrary: v w)
  case 0
  then show ?case by simp
next
  case (Suc k)
  from Suc.prems obtain v1 w1 where
    s: "call_solve_lu env PLU v w = Inr (v1, w1)"
    and rest: "bind_res (vdiv v1 (l2_norm v1)) (\<lambda>v2. inverse_loop env PLU k v2 w1) = Inr (v', w')"
    by (auto simp: bind_res_eq_Inr)
  from s have sol: "env_solve_lu env PLU v = Inr v1"
    and w1: "w1 = w\<lparr>calls := calls w @ [CallSolveLU PLU v]\<rparr>"
    by (auto simp: call_solve_lu_def bind_res_eq_Inr)
  from rest obtain v2 where d: "vdiv v1 (l2_norm v1) = Inr v2"
    and loop: "inverse_loop env PLU k v2 w1 = Inr (v', w')"
    by (auto simp: bind_res_eq_Inr)
  from d have v2: "v2 = map (\<lambda>x. x / l2_norm v1) v1"
    by (auto simp: vdiv_def split: if_splits)
  from Suc.IH[OF loop] show ?case
    by (simp add: sol w1 v2)
qed

text \<open>
  Claim C5.  In every run of \<^verbatim>\<open>inverse_iteration(A, max_iter)\<close> that returns, the calls to
  the collaborators are, in this order: one \<^verbatim>\<open>LU(A.copy(), pivoting='partial').decompose()\<close>,
  before the loop, and then \<open>max_iter\<close> calls \<^verbatim>\<open>solve(PLU, v)\<close>, each with the factors that
  this one decomposition returned; the vector handed to each \<^verbatim>\<open>solve\<close> is the previous
  solution divided by its L2 norm.  The log holds exactly one more decomposition after the
  run than before: \<open>A\<close> is never factored again inside the loop.
\<close>

theorem inverse_iteration_factors_once:
  assumes run: "inverse_iteration env A max_iter w = Inr (r, w')"
  shows "\<exists>PLU. env_lu env A = Inr PLU
       \<and> calls w' = calls w @ CallLU A #
           map (CallSolveLU PLU) (inverse_inputs env PLU max_iter (fst (randn (nrows A) w)))
       \<and> length (inverse_inputs env PLU max_iter (fst (randn (nrows A) w))) = max_iter
       \<and> lu_calls (calls w') = lu_calls (calls w) + 1"
proof -
  obtain v w1 where rn: "randn (nrows A) w = (v, w1)" by (cases "randn (nrows A) w")
  then have cw1: "calls w1 = calls w" by (auto simp: randn_def)
  from run rn obtain PLU w2 v' w3 where
    lu: "call_lu env A w1 = Inr (PLU, w2)"
    and loop: "inverse_loop env PLU max_iter v w2 = Inr (v', w3)"
    and w3: "w' = w3"
    unfolding inverse_iteration_def
    by (auto simp: bind_res_eq_Inr)
  from lu have f: "env_lu env A = Inr PLU" and cw2: "calls w2 = calls w1 @ [CallLU A]"
    by (auto simp: call_lu_def bind_res_eq_Inr)
  from inverse_loop_log[OF loop]
  have log: "calls w' = calls w @ CallLU A # map (CallSolveLU PLU) (inverse_inputs env PLU max_iter v)"
    and len: "length (inverse_inputs env PLU max_iter v) = max_iter"
    by (simp_all add: w3 cw2 cw1)
  have "lu_calls (calls w') = lu_calls (calls w) + 1"
    unfolding log by (simp add: lu_calls_append lu_calls_solves)
  with f log len rn show ?thesis by simp
qed

theorem inverse_iteration_factors_once_witness:
  "inverse_iteration
     \<lparr>env_sign = (\<lambda>x. 1), env_lu = (\<lambda>A. Inr (eye 1, eye 1, A)),
      env_solve_lu = (\<lambda>f v. Inr (map (\<lambda>x. x / 2) v)), env_solve = (\<lambda>A v. Inr v),
      env_qr = (\<lambda>A. Inr (eye 1, A))\<rparr>
     [[2]] 2 \<lparr>rng = (\<lambda>i. 1), calls = []\<rparr>
   = Inr ((2, [1]),
       \<lparr>rng = (\<lambda>i. 1),
        calls = [CallLU [[2]], CallSolveLU (eye 1, eye 1, [[2]]) [1],
                 CallSolveLU (eye 1, eye 1, [[2]]) [1]]\<rparr>)
   \<and> lu_calls [CallLU [[2]], CallSolveLU (eye 1, eye 1, [[2]]) [1],
                 CallSolveLU (eye 1, eye 1, [[2]]) [1]] = 0 + 1"
proof -
  let ?env = "\<lparr>env_sign = (\<lambda>x. 1), env_lu = (\<lambda>A. Inr (eye 1, eye 1, A)),
      env_solve_lu = (\<lambda>f v. Inr (map (\<lambda>x. x / 2) v)), env_solve = (\<lambda>A v. Inr v),
      env_qr = (\<lambda>A. Inr (eye 1, A))\<rparr>"
  have sym: "is_symmetric [[2]] = Inr True"
    by (simp add: is_symmetric_def broadcast2_def bdim_def bget_def nrows_def ncols_def
        transpose_m_def col_def isclose_def bind_res_def)
  have half: "sqrt (1 / 4) = 1 / 2"
    by (rule real_sqrt_unique) (simp_all add: power2_eq_square)
  have run: "inverse_iteration ?env [[2]] 2 \<lparr>rng = (\<lambda>i. 1), calls = []\<rparr>
    = Inr ((2, [1]), \<lparr>rng = (\<lambda>i. 1),
        calls = [CallLU [[2]], CallSolveLU (eye 1, eye 1, [[2]]) [1],
                 CallSolveLU (eye 1, eye 1, [[2]]) [1]]\<rparr>)"
    by (simp add: inverse_iteration_def assert_symmetric_ok[OF sym] bind_res_def nrows_def
        randn_def call_lu_def numeral_2_eq_2 call_solve_lu_def l2_norm_def dot_def vdiv_def half
        rayleigh_quotient_def vecmat_def ncols_def col_def vdot_def isclose_def)
  from inverse_iteration_factors_once[OF run]
  have "lu_calls (calls \<lparr>rng = (\<lambda>i. 1 :: real),
        calls = [CallLU [[2]], CallSolveLU (eye 1, eye 1, [[2]]) [1],
                 CallSolveLU (eye 1, eye 1, [[2]]) [1]]\<rparr>)
      = lu_calls (calls \<lparr>rng = (\<lambda>i. 1 :: real), calls = []\<rparr>) + 1"
    by blast
  then have "lu_calls [CallLU [[2]], CallSolveLU (eye 1, eye 1, [[2]]) [1],
                 CallSolveLU (eye 1, eye 1, [[2]]) [1]] = 0 + 1"
    by (simp only: world.simps lu_calls.simps)
  with run show ?thesis by blast
qed

section \<open>projected_iteration\<close>


lemma is_symmetric_eye2: "is_symmetric [[1, 0], [0, 1]] = Inr True"
  by (simp add: is_symmetric_def broadcast2_def bdim_def bget_def nrows_def ncols_def
      transpose_m_def col_def isclose_def bind_res_def)

lemma projected_slot_eye2:
  "projected_slot [[1, 0], [0, 1]] 1000 0
     ([[0], [0]], [0, 0], \<lparr>rng = (\<lambda>i. if i = 0 then 1 else 0), calls = []\<rparr>)
   = Inr ([[1], [0]], [1, 0], \<lparr>rng = (\<lambda>i. 0), calls = []\<rparr>)"
  by (simp add: projected_slot_def randn_def nrows_def bind_res_def numeral_nat matvec_def dot_def
      ncols_def normalize_vec_def l2_norm_def vdiv_def vsub_def upt_rec rayleigh_quotient_def
      vecmat_def col_def vdot_def isclose_def set_col_def set_item_def)

lemma sort_eigs_too_short: "sort_eigs [1, 0] [[1], [0]] = Inl IndexError"
  by (simp add: sort_eigs_def argsort_def take_cols_def ncols_def bind_res_def)

text \<open>
  Claim C1.  The claim says that for \<open>1 \<le> k \<le> N\<close> the eigenvalue array has length \<open>k\<close> and
  that with \<^verbatim>\<open>sort=True\<close> the pairs come back sorted.  The code allocates
  \<^verbatim>\<open>eigvals = np.zeros(A.shape[0])\<close>, of length \<open>N\<close>.  For the 2-by-2 identity matrix and
  \<open>k = 1\<close> (start vector \<open>[1, 0]\<close>): with \<^verbatim>\<open>sort=True\<close> the index array has the two entries
  \<open>0, 1\<close> and \<^verbatim>\<open>eigvecs[:, idx]\<close> raises \<^verbatim>\<open>IndexError\<close> on the N-by-1 array; with
  \<^verbatim>\<open>sort=False\<close> the eigenvalue array returned is \<open>[1, 0]\<close>, of length 2.
\<close>

theorem projected_iteration_wrong_length:
  "projected_iteration [[1, 0], [0, 1]] 1 1000 True
     \<lparr>rng = (\<lambda>i. if i = 0 then 1 else 0), calls = []\<rparr> = Inl IndexError
   \<and> projected_iteration [[1, 0], [0, 1]] 1 1000 False
     \<lparr>rng = (\<lambda>i. if i = 0 then 1 else 0), calls = []\<rparr>
     = Inr (([1, 0], [[1], [0]]), \<lparr>rng = (\<lambda>i. 0), calls = []\<rparr>)"
  unfolding projected_iteration_def
  by (simp add: assert_symmetric_ok[OF is_symmetric_eye2] nrows_def numeral_2_eq_2
      projected_slot_eye2[simplified numeral_2_eq_2] sort_eigs_too_short bind_res_Inr bind_res_Inl)

section \<open>Square matrices\<close>


subsection \<open>Entries of square matrices\<close>

lemma is_mat_length: "is_mat m n A \<Longrightarrow> length A = m"
  by (simp add: is_mat_def)

lemma mat_eqI:
  assumes "is_mat m n A" and "is_mat m n B"
    and "\<And>i j. i < m \<Longrightarrow> j < n \<Longrightarrow> A ! i ! j = B ! i ! j"
  shows "A = B"
proof (rule nth_equalityI)
  show "length A = length B" using assms(1,2) by (simp add: is_mat_def)
next
  fix i assume "i < length A"
  then have i: "i < m" using assms(1) by (simp add: is_mat_def)
  show "A ! i = B ! i"
  proof (rule nth_equalityI)
    show "length (A ! i) = length (B ! i)"
      using assms(1,2) i by (simp add: is_mat_row)
  next
    fix j assume "j < length (A ! i)"
    then have "j < n" using assms(1) i by (simp add: is_mat_row)
    then show "A ! i ! j = B ! i ! j" using i by (rule assms(3)[rotated])
  qed
qed

lemma is_matI:
  "length A = m \<Longrightarrow> (\<And>i. i < m \<Longrightarrow> length (A ! i) = n) \<Longrightarrow> is_mat m n A"
  by (simp add: is_mat_def list_all_length)

lemma mm_is_mat: "is_mat n n A \<Longrightarrow> is_mat n n B \<Longrightarrow> is_mat n n (mm A B)"
  using is_mat_square_ncols[of n B] is_mat_length[of n n A]
  by (intro is_matI) (simp_all add: mm_def)

lemma col_nth: "i < length A \<Longrightarrow> col A j ! i = A ! i ! j"
  by (simp add: col_def)

lemma mm_nth:
  assumes A: "is_mat n n A" and B: "is_mat n n B" and i: "i < n" and j: "j < n"
  shows "mm A B ! i ! j = (\<Sum>k<n. A ! i ! k * B ! k ! j)"
proof -
  have lenA: "length A = n" and lenB: "length B = n" using A B by (simp_all add: is_mat_def)
  have row: "length (A ! i) = n" using A i by (rule is_mat_row)
  have "mm A B ! i ! j = dot (A ! i) (col B j)"
    using i j lenA by (simp add: mm_def is_mat_square_ncols[OF B])
  also have "\<dots> = (\<Sum>k<length (A ! i). A ! i ! k * col B j ! k)"
    by (rule dot_sum) (simp add: row col_def lenB)
  also have "\<dots> = (\<Sum>k<n. A ! i ! k * B ! k ! j)"
    unfolding row by (intro sum.cong) (simp_all add: col_nth lenB)
  finally show ?thesis .
qed

lemma transpose_is_mat: "is_mat n n A \<Longrightarrow> is_mat n n (transpose_m A)"
  using is_mat_square_ncols[of n A] is_mat_length[of n n A]
  by (intro is_matI) (simp_all add: transpose_m_def col_def)

lemma transpose_nth:
  "is_mat n n A \<Longrightarrow> i < n \<Longrightarrow> j < n \<Longrightarrow> transpose_m A ! i ! j = A ! j ! i"
  using is_mat_square_ncols[of n A] is_mat_length[of n n A]
  by (simp add: transpose_m_def col_def)

lemma eye_is_mat: "is_mat n n (eye n)"
  by (rule is_matI) (simp_all add: eye_def)

lemma eye_nth: "i < n \<Longrightarrow> j < n \<Longrightarrow> eye n ! i ! j = (if i = j then 1 else 0)"
  by (simp add: eye_def)

lemma msmul_is_mat: "is_mat m n A \<Longrightarrow> is_mat m n (msmul c A)"
  by (rule is_matI) (simp_all add: msmul_def smul_def is_mat_def list_all_length)

lemma msmul_nth: "is_mat m n A \<Longrightarrow> i < m \<Longrightarrow> j < n \<Longrightarrow> msmul c A ! i ! j = c * A ! i ! j"
  by (simp add: msmul_def smul_def is_mat_def list_all_length)

lemma matmul_square:
  "is_mat n n A \<Longrightarrow> is_mat n n B \<Longrightarrow> matmul A B = Inr (mm A B)"
  by (simp add: matmul_def mm_def is_mat_square_ncols is_mat_nrows)

lemma bget_nth: "is_mat n n A \<Longrightarrow> i < n \<Longrightarrow> j < n \<Longrightarrow> bget A i j = A ! i ! j"
  by (auto simp: bget_def is_mat_square_ncols is_mat_nrows)

lemma broadcast2_square:
  assumes "is_mat n n A" and "is_mat n n B"
  shows "broadcast2 f A B = Inr (map (\<lambda>i. map (\<lambda>j. f (A ! i ! j) (B ! i ! j)) [0..<n]) [0..<n])"
  using assms
  by (simp add: broadcast2_def bdim_def is_mat_square_ncols is_mat_nrows bind_res_Inr bget_nth)

subsection \<open>Algebra of the product\<close>

lemma mm_assoc:
  assumes A: "is_mat n n A" and B: "is_mat n n B" and C: "is_mat n n C"
  shows "mm (mm A B) C = mm A (mm B C)"
proof (rule mat_eqI)
  show "is_mat n n (mm (mm A B) C)" by (intro mm_is_mat A B C)
  show "is_mat n n (mm A (mm B C))" by (intro mm_is_mat A B C)
next
  fix i j assume i: "i < n" and j: "j < n"
  have "mm (mm A B) C ! i ! j = (\<Sum>k<n. (\<Sum>l<n. A ! i ! l * B ! l ! k) * C ! k ! j)"
    using i j by (simp add: mm_nth[OF mm_is_mat[OF A B] C] mm_nth[OF A B])
  also have "\<dots> = (\<Sum>k<n. \<Sum>l<n. A ! i ! l * (B ! l ! k * C ! k ! j))"
    by (simp add: sum_distrib_right mult.assoc)
  also have "\<dots> = (\<Sum>l<n. \<Sum>k<n. A ! i ! l * (B ! l ! k * C ! k ! j))"
    by (rule sum.swap)
  also have "\<dots> = (\<Sum>l<n. A ! i ! l * (\<Sum>k<n. B ! l ! k * C ! k ! j))"
    by (simp add: sum_distrib_left)
  also have "\<dots> = mm A (mm B C) ! i ! j"
    using i j by (simp add: mm_nth[OF A mm_is_mat[OF B C]] mm_nth[OF B C])
  finally show "mm (mm A B) C ! i ! j = mm A (mm B C) ! i ! j" .
qed

lemma mm_eye_left:
  assumes A: "is_mat n n A"
  shows "mm (eye n) A = A"
proof (rule mat_eqI)
  show "is_mat n n (mm (eye n) A)" by (intro mm_is_mat eye_is_mat A)
  show "is_mat n n A" by (rule A)
next
  fix i j assume i: "i < n" and j: "j < n"
  have "mm (eye n) A ! i ! j = (\<Sum>k<n. (if i = k then 1 else 0) * A ! k ! j)"
    using i j by (simp add: mm_nth[OF eye_is_mat A] eye_nth)
  also have "\<dots> = (\<Sum>k<n. if k = i then A ! k ! j else 0)"
    by (intro sum.cong) auto
  also have "\<dots> = A ! i ! j" using i by simp
  finally show "mm (eye n) A ! i ! j = A ! i ! j" .
qed

lemma mm_eye_right:
  assumes A: "is_mat n n A"
  shows "mm A (eye n) = A"
proof (rule mat_eqI)
  show "is_mat n n (mm A (eye n))" by (intro mm_is_mat eye_is_mat A)
  show "is_mat n n A" by (rule A)
next
  fix i j assume i: "i < n" and j: "j < n"
  have "mm A (eye n) ! i ! j = (\<Sum>k<n. A ! i ! k * (if k = j then 1 else 0))"
    using i j by (simp add: mm_nth[OF A eye_is_mat] eye_nth)
  also have "\<dots> = (\<Sum>k<n. if k = j then A ! i ! k else 0)"
    by (intro sum.cong) auto
  also have "\<dots> = A ! i ! j" using j by simp
  finally show "mm A (eye n) ! i ! j = A ! i ! j" .
qed

lemma transpose_mm:
  assumes A: "is_mat n n A" and B: "is_mat n n B"
  shows "transpose_m (mm A B) = mm (transpose_m B) (transpose_m A)"
proof (rule mat_eqI)
  show "is_mat n n (transpose_m (mm A B))" by (intro transpose_is_mat mm_is_mat A B)
  show "is_mat n n (mm (transpose_m B) (transpose_m A))" by (intro transpose_is_mat mm_is_mat A B)
next
  fix i j assume i: "i < n" and j: "j < n"
  show "transpose_m (mm A B) ! i ! j = mm (transpose_m B) (transpose_m A) ! i ! j"
    using i j
    by (simp add: transpose_nth[OF mm_is_mat[OF A B]] mm_nth[OF A B]
        mm_nth[OF transpose_is_mat[OF B] transpose_is_mat[OF A]]
        transpose_nth[OF A] transpose_nth[OF B] mult.commute)
qed

lemma transpose_transpose:
  assumes A: "is_mat n n A"
  shows "transpose_m (transpose_m A) = A"
  by (rule mat_eqI[OF transpose_is_mat[OF transpose_is_mat[OF A]] A])
    (simp add: transpose_nth[OF transpose_is_mat[OF A]] transpose_nth[OF A])

lemma mzip_is_mat: "is_mat n n (mzip f n A B)"
  by (rule is_matI) (simp_all add: mzip_def)

lemma mzip_nth: "i < n \<Longrightarrow> j < n \<Longrightarrow> mzip f n A B ! i ! j = f (A ! i ! j) (B ! i ! j)"
  by (simp add: mzip_def)

lemma broadcast2_mzip:
  "is_mat n n A \<Longrightarrow> is_mat n n B \<Longrightarrow> broadcast2 f A B = Inr (mzip f n A B)"
  by (simp add: broadcast2_square mzip_def)

lemma mm_mzip_sub_left:
  assumes A: "is_mat n n A" and B: "is_mat n n B" and C: "is_mat n n C"
  shows "mm (mzip (\<lambda>a b. a - b) n A B) C = mzip (\<lambda>a b. a - b) n (mm A C) (mm B C)"
proof (rule mat_eqI)
  show "is_mat n n (mm (mzip (\<lambda>a b. a - b) n A B) C)" by (intro mm_is_mat mzip_is_mat C)
  show "is_mat n n (mzip (\<lambda>a b. a - b) n (mm A C) (mm B C))" by (rule mzip_is_mat)
next
  fix i j assume i: "i < n" and j: "j < n"
  show "mm (mzip (\<lambda>a b. a - b) n A B) C ! i ! j = mzip (\<lambda>a b. a - b) n (mm A C) (mm B C) ! i ! j"
    using i j
    by (simp add: mm_nth[OF mzip_is_mat C] mzip_nth mm_nth[OF A C] mm_nth[OF B C]
        left_diff_distrib sum_subtractf)
qed

lemma mm_mzip_sub_right:
  assumes A: "is_mat n n A" and B: "is_mat n n B" and C: "is_mat n n C"
  shows "mm C (mzip (\<lambda>a b. a - b) n A B) = mzip (\<lambda>a b. a - b) n (mm C A) (mm C B)"
proof (rule mat_eqI)
  show "is_mat n n (mm C (mzip (\<lambda>a b. a - b) n A B))" by (intro mm_is_mat mzip_is_mat C)
  show "is_mat n n (mzip (\<lambda>a b. a - b) n (mm C A) (mm C B))" by (rule mzip_is_mat)
next
  fix i j assume i: "i < n" and j: "j < n"
  show "mm C (mzip (\<lambda>a b. a - b) n A B) ! i ! j = mzip (\<lambda>a b. a - b) n (mm C A) (mm C B) ! i ! j"
    using i j
    by (simp add: mm_nth[OF C mzip_is_mat] mzip_nth mm_nth[OF C A] mm_nth[OF C B]
        right_diff_distrib sum_subtractf)
qed

lemma mm_msmul_left:
  assumes A: "is_mat n n A" and B: "is_mat n n B"
  shows "mm (msmul c A) B = msmul c (mm A B)"
proof (rule mat_eqI)
  show "is_mat n n (mm (msmul c A) B)" by (intro mm_is_mat msmul_is_mat A B)
  show "is_mat n n (msmul c (mm A B))" by (intro mm_is_mat msmul_is_mat A B)
next
  fix i j assume i: "i < n" and j: "j < n"
  show "mm (msmul c A) B ! i ! j = msmul c (mm A B) ! i ! j"
    using i j
    by (simp add: mm_nth[OF msmul_is_mat[OF A] B] msmul_nth[OF A] msmul_nth[OF mm_is_mat[OF A B]]
        mm_nth[OF A B] sum_distrib_left mult.assoc)
qed

lemma mm_msmul_right:
  assumes A: "is_mat n n A" and B: "is_mat n n B"
  shows "mm A (msmul c B) = msmul c (mm A B)"
proof (rule mat_eqI)
  show "is_mat n n (mm A (msmul c B))" by (intro mm_is_mat msmul_is_mat A B)
  show "is_mat n n (msmul c (mm A B))" by (intro mm_is_mat msmul_is_mat A B)
next
  fix i j assume i: "i < n" and j: "j < n"
  show "mm A (msmul c B) ! i ! j = msmul c (mm A B) ! i ! j"
    using i j
    by (simp add: mm_nth[OF A msmul_is_mat[OF B]] msmul_nth[OF B] msmul_nth[OF mm_is_mat[OF A B]]
        mm_nth[OF A B] sum_distrib_left mult.left_commute)
qed

lemma mzip_sub_add_cancel:
  assumes A: "is_mat n n A"
  shows "mzip (\<lambda>a b. a + b) n (mzip (\<lambda>a b. a - b) n A B) B = A"
  by (rule mat_eqI[OF mzip_is_mat A]) (simp add: mzip_nth)

subsection \<open>Orthogonal similarity\<close>

lemma orthogonal_eye: "orthogonal n (eye n)"
proof -
  have t: "transpose_m (eye n) = eye n"
    by (rule mat_eqI[OF transpose_is_mat[OF eye_is_mat] eye_is_mat])
      (auto simp: transpose_nth[OF eye_is_mat] eye_nth)
  show ?thesis
    by (simp add: orthogonal_def eye_is_mat t mm_eye_left)
qed

lemma orthogonal_mm:
  assumes P: "orthogonal n P" and Q: "orthogonal n Q"
  shows "orthogonal n (mm P Q)"
proof -
  have p: "is_mat n n P" and q: "is_mat n n Q" using P Q by (simp_all add: orthogonal_def)
  have pt: "is_mat n n (transpose_m P)" and qt: "is_mat n n (transpose_m Q)"
    using p q by (simp_all add: transpose_is_mat)
  have "mm (transpose_m (mm P Q)) (mm P Q) = mm (mm (transpose_m Q) (transpose_m P)) (mm P Q)"
    by (simp add: transpose_mm[OF p q])
  also have "\<dots> = mm (transpose_m Q) (mm (mm (transpose_m P) P) Q)"
    by (simp add: mm_assoc[where n = n] p q pt qt mm_is_mat)
  also have "\<dots> = eye n"
    using P Q by (simp add: orthogonal_def mm_eye_left)
  finally have 1: "mm (transpose_m (mm P Q)) (mm P Q) = eye n" .
  have "mm (mm P Q) (transpose_m (mm P Q)) = mm (mm P Q) (mm (transpose_m Q) (transpose_m P))"
    by (simp add: transpose_mm[OF p q])
  also have "\<dots> = mm P (mm (mm Q (transpose_m Q)) (transpose_m P))"
    by (simp add: mm_assoc[where n = n] p q pt qt mm_is_mat)
  also have "\<dots> = eye n"
    using P Q pt by (simp add: orthogonal_def mm_eye_left)
  finally have 2: "mm (mm P Q) (transpose_m (mm P Q)) = eye n" .
  show ?thesis using 1 2 p q by (simp add: orthogonal_def mm_is_mat)
qed

lemma orth_similar_refl: "is_mat n n A \<Longrightarrow> orth_similar n A A"
  unfolding orth_similar_def
proof (intro exI conjI)
  assume A: "is_mat n n A"
  show "orthogonal n (eye n)" by (rule orthogonal_eye)
  have "transpose_m (eye n) = eye n"
    using orthogonal_eye[of n] by (simp add: orthogonal_def mm_eye_right transpose_is_mat eye_is_mat)
  then show "A = mm (mm (transpose_m (eye n)) A) (eye n)"
    using A by (simp add: mm_eye_left mm_eye_right)
qed

lemma orth_similar_step:
  assumes A: "is_mat n n A" and P: "orthogonal n P" and Q: "orthogonal n Q"
  shows "mm (mm (transpose_m Q) (mm (mm (transpose_m P) A) P)) Q
       = mm (mm (transpose_m (mm P Q)) A) (mm P Q)"
proof -
  have p: "is_mat n n P" and q: "is_mat n n Q" using P Q by (simp_all add: orthogonal_def)
  have pt: "is_mat n n (transpose_m P)" and qt: "is_mat n n (transpose_m Q)"
    using p q by (simp_all add: transpose_is_mat)
  show ?thesis
    by (simp add: transpose_mm[OF p q] mm_assoc[where n = n] A p q pt qt mm_is_mat)
qed

lemma orth_similar_trans:
  assumes A: "is_mat n n A" and 1: "orth_similar n A B" and 2: "orth_similar n B C"
  shows "orth_similar n A C"
proof -
  from 1 obtain P where P: "orthogonal n P" and B: "B = mm (mm (transpose_m P) A) P"
    by (auto simp: orth_similar_def)
  from 2 obtain Q where Q: "orthogonal n Q" and C: "C = mm (mm (transpose_m Q) B) Q"
    by (auto simp: orth_similar_def)
  have "C = mm (mm (transpose_m (mm P Q)) A) (mm P Q)"
    unfolding C B by (rule orth_similar_step[OF A P Q])
  with orthogonal_mm[OF P Q] show ?thesis by (auto simp: orth_similar_def)
qed

lemma orth_similar_is_mat:
  "is_mat n n A \<Longrightarrow> orth_similar n A B \<Longrightarrow> is_mat n n B"
  by (auto simp: orth_similar_def orthogonal_def intro!: mm_is_mat transpose_is_mat)

section \<open>qr_algorithm: the shifted QR iteration\<close>

lemma get_item2_corner:
  assumes "is_mat M M A"
  shows "get_item2 A (int M - 1) (int M - 1) =
     (if 0 < M then Inr (A ! (M - 1) ! (M - 1)) else Inl IndexError)"
proof (cases "0 < M")
  case True
  then have "py_index (int M - 1) M = Inr (M - 1)"
    by (auto simp: py_index_def nat_diff_distrib')
  then show ?thesis using True assms
    by (simp add: get_item2_def is_mat_nrows is_mat_square_ncols bind_res_Inr)
next
  case False
  then show ?thesis using assms
    by (simp add: get_item2_def is_mat_nrows py_index_def bind_res_Inl)
qed

lemma qr_reassemble:
  assumes A: "is_mat M M A" and Q: "orthogonal M Q" and R: "is_mat M M R"
    and QR: "mm Q R = mzip (\<lambda>a b. a - b) M A (msmul mu (eye M))"
  shows "mzip (\<lambda>a b. a + b) M (mm R Q) (msmul mu (eye M)) = mm (mm (transpose_m Q) A) Q"
proof -
  let ?S = "msmul mu (eye M)"
  let ?Qt = "transpose_m Q"
  have q: "is_mat M M Q" and qtq: "mm ?Qt Q = eye M" using Q by (simp_all add: orthogonal_def)
  have qt: "is_mat M M ?Qt" using q by (rule transpose_is_mat)
  have s: "is_mat M M ?S" by (intro msmul_is_mat eye_is_mat)
  have "R = mm (eye M) R" using R by (simp add: mm_eye_left)
  also have "\<dots> = mm ?Qt (mm Q R)" by (simp add: qtq[symmetric] mm_assoc[OF qt q R])
  finally have R_eq: "R = mm ?Qt (mzip (\<lambda>a b. a - b) M A ?S)" by (simp add: QR)
  have "mm (mm ?Qt ?S) Q = mm (msmul mu (mm ?Qt (eye M))) Q"
    by (simp add: mm_msmul_right[OF qt eye_is_mat])
  also have "\<dots> = msmul mu (mm ?Qt Q)"
    using qt by (simp add: mm_eye_right mm_msmul_left[OF qt q])
  finally have S_eq: "mm (mm ?Qt ?S) Q = ?S" by (simp add: qtq)
  have "mm R Q = mm (mzip (\<lambda>a b. a - b) M (mm ?Qt A) (mm ?Qt ?S)) Q"
    by (subst R_eq) (simp add: mm_mzip_sub_right[OF A s qt])
  also have "\<dots> = mzip (\<lambda>a b. a - b) M (mm (mm ?Qt A) Q) (mm (mm ?Qt ?S) Q)"
    by (rule mm_mzip_sub_left[OF mm_is_mat[OF qt A] mm_is_mat[OF qt s] q])
  finally have "mm R Q = mzip (\<lambda>a b. a - b) M (mm (mm ?Qt A) Q) ?S" by (simp add: S_eq)
  then show ?thesis
    by (simp add: mzip_sub_add_cancel[OF mm_is_mat[OF mm_is_mat[OF qt A] q]])
qed

lemma all_close_close_to:
  "is_mat M M X \<Longrightarrow> is_mat M M Y \<Longrightarrow> all_close X Y = Inr (close_to M X Y)"
  by (simp add: all_close_def close_to_def broadcast2_mzip bind_res_Inr)

lemma qr_body_next:
  assumes contract: "\<forall>B Q R. is_mat M M B \<longrightarrow> env_qr env B = Inr (Q, R) \<longrightarrow>
      orthogonal M Q \<and> is_mat M M R \<and> mm Q R = B"
    and A: "is_mat M M A" and run: "qr_body env M A w = Inr (A_new, w1)"
  shows "A_new = qr_next env M A"
    and "calls w1 = calls w @ [CallQR (shifted M A)]"
    and "\<exists>Q R. env_qr env (shifted M A) = Inr (Q, R) \<and> orthogonal M Q
           \<and> qr_next env M A = mm (mm (transpose_m Q) A) Q"
    and "is_mat M M (qr_next env M A)"
proof -
  let ?mu = "A ! (M - 1) ! (M - 1)"
  let ?S = "msmul ?mu (eye M)"
  have s: "is_mat M M ?S" by (intro msmul_is_mat eye_is_mat)
  from run have pos: "0 < M"
    by (auto simp: qr_body_def bind_res_eq_Inr get_item2_corner[OF A] split: if_splits)
  have sub: "broadcast2 (\<lambda>a b. a - b) A ?S = Inr (shifted M A)"
    unfolding shifted_def by (rule broadcast2_mzip[OF A s])
  from run obtain Q R where
    call: "call_qr env (shifted M A) w = Inr ((Q, R), w1)"
    and rest: "bind_res (matmul R Q) (\<lambda>RQ.
       bind_res (broadcast2 (\<lambda>a b. a + b) RQ ?S) (\<lambda>A_new'. Inr (A_new', w1))) = Inr (A_new, w1)"
    by (auto simp del: One_nat_def simp: qr_body_def get_item2_corner[OF A] pos sub bind_res_eq_Inr)
  from call have qr: "env_qr env (shifted M A) = Inr (Q, R)"
    and w1: "calls w1 = calls w @ [CallQR (shifted M A)]"
    by (auto simp: call_qr_def bind_res_eq_Inr)
  have sh: "is_mat M M (shifted M A)" by (simp add: shifted_def mzip_is_mat)
  from contract sh qr have Q: "orthogonal M Q" and R: "is_mat M M R"
    and QR: "mm Q R = shifted M A" by blast+
  have q: "is_mat M M Q" using Q by (simp add: orthogonal_def)
  have new: "A_new = mzip (\<lambda>a b. a + b) M (mm R Q) ?S"
    using rest by (simp del: One_nat_def add: matmul_square[OF R q] bind_res_Inr
        broadcast2_mzip[OF mm_is_mat[OF R q] s])
  have nxt: "qr_next env M A = mzip (\<lambda>a b. a + b) M (mm R Q) ?S"
    by (simp del: One_nat_def add: qr_next_def qr)
  show "A_new = qr_next env M A" using new nxt by simp
  show "calls w1 = calls w @ [CallQR (shifted M A)]" by (rule w1)
  have "mzip (\<lambda>a b. a + b) M (mm R Q) ?S = mm (mm (transpose_m Q) A) Q"
    using QR by (intro qr_reassemble[OF A Q R]) (simp add: shifted_def)
  with nxt have eq: "qr_next env M A = mm (mm (transpose_m Q) A) Q" by simp
  with qr Q show "\<exists>Q R. env_qr env (shifted M A) = Inr (Q, R) \<and> orthogonal M Q
           \<and> qr_next env M A = mm (mm (transpose_m Q) A) Q" by blast
  show "is_mat M M (qr_next env M A)" unfolding nxt by (rule mzip_is_mat)
qed

lemma qr_loop_iterates:
  assumes contract: "\<forall>B Q R. is_mat M M B \<longrightarrow> env_qr env B = Inr (Q, R) \<longrightarrow>
      orthogonal M Q \<and> is_mat M M R \<and> mm Q R = B"
  shows "is_mat M M A \<Longrightarrow> qr_loop env M k A w = Inr (A', w') \<Longrightarrow>
     \<exists>n\<le>k. A' = (qr_next env M ^^ n) A
       \<and> (\<forall>j<n. \<not> close_to M ((qr_next env M ^^ Suc j) A) ((qr_next env M ^^ j) A))
       \<and> (n < k \<longrightarrow> close_to M ((qr_next env M ^^ Suc n) A) ((qr_next env M ^^ n) A))
       \<and> calls w' = calls w @
            map (\<lambda>j. CallQR (shifted M ((qr_next env M ^^ j) A))) [0..<min (Suc n) k]
       \<and> (\<forall>j<min (Suc n) k. is_mat M M ((qr_next env M ^^ j) A)
            \<and> (\<exists>Q R. env_qr env (shifted M ((qr_next env M ^^ j) A)) = Inr (Q, R)
                 \<and> orthogonal M Q
                 \<and> (qr_next env M ^^ Suc j) A
                     = mm (mm (transpose_m Q) ((qr_next env M ^^ j) A)) Q))"
proof (induction k arbitrary: A w)
  case 0
  then show ?case by simp
next
  case (Suc k)
  let ?f = "qr_next env M"
  from Suc.prems(2) obtain A_new w1 stop where
    body: "qr_body env M A w = Inr (A_new, w1)"
    and close: "all_close A_new A = Inr stop"
    and rest: "(if stop then Inr (A, w1) else qr_loop env M k A_new w1) = Inr (A', w')"
    by (auto simp: bind_res_eq_Inr)
  note b = qr_body_next[OF contract Suc.prems(1) body]
  have new: "A_new = ?f A" by (rule b(1))
  have n: "is_mat M M (?f A)" by (rule b(4))
  have stop: "stop = close_to M (?f A) A"
    using close all_close_close_to[OF n Suc.prems(1)] by (simp add: new)
  have step0: "is_mat M M A \<and> (\<exists>Q R. env_qr env (shifted M A) = Inr (Q, R) \<and> orthogonal M Q
                 \<and> ?f A = mm (mm (transpose_m Q) A) Q)"
    using Suc.prems(1) b(3) by simp
  show ?case
  proof (cases stop)
    case True
    with rest have eq: "A' = A" "w' = w1" by simp_all
    show ?thesis
    proof (intro exI[of _ 0] conjI)
      show "calls w' = calls w @
            map (\<lambda>j. CallQR (shifted M ((?f ^^ j) A))) [0..<min (Suc 0) (Suc k)]"
        by (simp add: eq b(2))
      show "\<forall>j<min (Suc 0) (Suc k). is_mat M M ((?f ^^ j) A)
            \<and> (\<exists>Q R. env_qr env (shifted M ((?f ^^ j) A)) = Inr (Q, R) \<and> orthogonal M Q
                 \<and> (?f ^^ Suc j) A = mm (mm (transpose_m Q) ((?f ^^ j) A)) Q)"
        using step0 by simp
    qed (use True stop eq in simp_all)
  next
    case False
    with rest have loop: "qr_loop env M k (?f A) w1 = Inr (A', w')" by (simp add: new)
    from Suc.IH[OF n loop] obtain m where m: "m \<le> k"
      and res: "A' = (?f ^^ m) (?f A)"
      and before: "\<forall>j<m. \<not> close_to M ((?f ^^ Suc j) (?f A)) ((?f ^^ j) (?f A))"
      and at: "m < k \<longrightarrow> close_to M ((?f ^^ Suc m) (?f A)) ((?f ^^ m) (?f A))"
      and log: "calls w' = calls w1 @
            map (\<lambda>j. CallQR (shifted M ((?f ^^ j) (?f A)))) [0..<min (Suc m) k]"
      and steps: "\<forall>j<min (Suc m) k. is_mat M M ((?f ^^ j) (?f A))
            \<and> (\<exists>Q R. env_qr env (shifted M ((?f ^^ j) (?f A))) = Inr (Q, R) \<and> orthogonal M Q
                 \<and> (?f ^^ Suc j) (?f A) = mm (mm (transpose_m Q) ((?f ^^ j) (?f A))) Q)"
      by blast
    have sw: "(?f ^^ j) (?f A) = (?f ^^ Suc j) A" for j by (simp add: funpow_swap1)
    show ?thesis
    proof (intro exI[of _ "Suc m"] conjI)
      show "Suc m \<le> Suc k" using m by simp
      show "A' = (?f ^^ Suc m) A" using res by (simp only: sw simp_thms)
      show "\<forall>j<Suc m. \<not> close_to M ((?f ^^ Suc j) A) ((?f ^^ j) A)"
      proof (intro allI impI)
        fix j assume j: "j < Suc m"
        show "\<not> close_to M ((?f ^^ Suc j) A) ((?f ^^ j) A)"
        proof (cases j)
          case 0
          with False stop show ?thesis by simp
        next
          case (Suc i)
          with j before have "\<not> close_to M ((?f ^^ Suc i) (?f A)) ((?f ^^ i) (?f A))" by simp
          then show ?thesis unfolding Suc by (simp only: sw simp_thms)
        qed
      qed
      show "Suc m < Suc k \<longrightarrow> close_to M ((?f ^^ Suc (Suc m)) A) ((?f ^^ Suc m) A)"
        using at by (simp only: sw Suc_less_eq simp_thms)
      have "[0..<min (Suc (Suc m)) (Suc k)] = 0 # map Suc [0..<min (Suc m) k]"
        by (simp add: upt_conv_Cons map_Suc_upt del: upt_Suc)
      then show "calls w' = calls w @
            map (\<lambda>j. CallQR (shifted M ((?f ^^ j) A))) [0..<min (Suc (Suc m)) (Suc k)]"
        using log b(2) by (simp add: o_def funpow_swap1 del: upt_Suc)
      show "\<forall>j<min (Suc (Suc m)) (Suc k). is_mat M M ((?f ^^ j) A)
            \<and> (\<exists>Q R. env_qr env (shifted M ((?f ^^ j) A)) = Inr (Q, R) \<and> orthogonal M Q
                 \<and> (?f ^^ Suc j) A = mm (mm (transpose_m Q) ((?f ^^ j) A)) Q)"
      proof (intro allI impI)
        fix j assume j: "j < min (Suc (Suc m)) (Suc k)"
        show "is_mat M M ((?f ^^ j) A)
            \<and> (\<exists>Q R. env_qr env (shifted M ((?f ^^ j) A)) = Inr (Q, R) \<and> orthogonal M Q
                 \<and> (?f ^^ Suc j) A = mm (mm (transpose_m Q) ((?f ^^ j) A)) Q)"
        proof (cases j)
          case 0
          with step0 show ?thesis by simp
        next
          case (Suc i)
          with j have "i < min (Suc m) k" by simp
          with steps have "is_mat M M ((?f ^^ i) (?f A))
            \<and> (\<exists>Q R. env_qr env (shifted M ((?f ^^ i) (?f A))) = Inr (Q, R) \<and> orthogonal M Q
                 \<and> (?f ^^ Suc i) (?f A) = mm (mm (transpose_m Q) ((?f ^^ i) (?f A))) Q)"
            by blast
          then show ?thesis unfolding Suc by (simp only: sw simp_thms)
        qed
      qed
    qed
  qed
qed

lemma qr_iterates_similar:
  assumes A: "is_mat M M A"
    and steps: "\<forall>j<n. is_mat M M ((qr_next env M ^^ j) A)
            \<and> (\<exists>Q R. env_qr env (shifted M ((qr_next env M ^^ j) A)) = Inr (Q, R)
                 \<and> orthogonal M Q
                 \<and> (qr_next env M ^^ Suc j) A
                     = mm (mm (transpose_m Q) ((qr_next env M ^^ j) A)) Q)"
  shows "j \<le> n \<Longrightarrow> is_mat M M ((qr_next env M ^^ j) A) \<and> orth_similar M A ((qr_next env M ^^ j) A)"
proof (induction j)
  case 0
  with A show ?case by (simp add: orth_similar_refl)
next
  case (Suc j)
  let ?X = "(qr_next env M ^^ j) A"
  from Suc have X: "is_mat M M ?X" and sim: "orth_similar M A ?X" by simp_all
  from Suc.prems steps obtain Q where Q: "orthogonal M Q"
    and eq: "(qr_next env M ^^ Suc j) A = mm (mm (transpose_m Q) ?X) Q"
    by (metis Suc_le_lessD)
  have st: "orth_similar M ?X ((qr_next env M ^^ Suc j) A)"
    using Q eq unfolding orth_similar_def by blast
  have "orth_similar M A ((qr_next env M ^^ Suc j) A)" using A sim st by (rule orth_similar_trans)
  moreover have "is_mat M M ((qr_next env M ^^ Suc j) A)" using X st by (rule orth_similar_is_mat)
  ultimately show ?case by simp
qed

text \<open>
  Claim C7.  Let \<^verbatim>\<open>QR(B).decompose()\<close> return, for every M-by-M matrix \<open>B\<close>, an
  orthogonal \<open>Q\<close> and an \<open>R\<close> with \<open>Q R = B\<close>.  Every run of the loop of \<^verbatim>\<open>qr_algorithm\<close>
  that returns is the shifted QR iteration, stopped at the first iterate whose successor
  is close to it: there is an \<open>n \<le> 1000\<close> such that the loop ends with the \<open>n\<close>-th iterate
  \<open>A\<^sub>n\<close>, where \<open>A\<^sub>0\<close> is the start matrix and \<open>A\<^sub>j\<^sub>+\<^sub>1 = R Q + mu I\<close> for the factors \<open>(Q, R)\<close>
  of \<open>A\<^sub>j - mu I\<close> and the shift \<open>mu = A\<^sub>j[M-1, M-1]\<close>; no iterate before the \<open>n\<close>-th has a
  successor within \<open>1e-8\<close> of it in every entry; if \<open>n < 1000\<close> the \<open>n\<close>-th has one; \<^verbatim>\<open>QR\<close>
  was called on \<open>A\<^sub>j - mu I\<close> for \<open>j = 0, 1, \<dots>\<close> in this order, \<open>min (n + 1) 1000\<close> times in
  all, so at most 1000 times; every step taken is \<open>A\<^sub>j\<^sub>+\<^sub>1 = Q\<^sup>T A\<^sub>j Q\<close> with \<open>Q\<close> orthogonal;
  and every iterate is an orthogonal similarity transform of the start matrix (so its
  eigenvalues, with their multiplicities, are those of the start matrix).
\<close>

theorem qr_loop_similarity:
  assumes contract: "\<forall>B Q R. is_mat M M B \<longrightarrow> env_qr env B = Inr (Q, R) \<longrightarrow>
      orthogonal M Q \<and> is_mat M M R \<and> mm Q R = B"
    and A: "is_mat M M A"
    and run: "qr_loop env M 1000 A w = Inr (A', w')"
  shows "\<exists>n\<le>1000. A' = (qr_next env M ^^ n) A
       \<and> (\<forall>j<n. \<not> close_to M ((qr_next env M ^^ Suc j) A) ((qr_next env M ^^ j) A))
       \<and> (n < 1000 \<longrightarrow> close_to M ((qr_next env M ^^ Suc n) A) ((qr_next env M ^^ n) A))
       \<and> calls w' = calls w @
            map (\<lambda>j. CallQR (shifted M ((qr_next env M ^^ j) A))) [0..<min (Suc n) 1000]
       \<and> (\<forall>j<min (Suc n) 1000.
            \<exists>Q R. env_qr env (shifted M ((qr_next env M ^^ j) A)) = Inr (Q, R)
              \<and> orthogonal M Q
              \<and> (qr_next env M ^^ Suc j) A
                  = mzip (\<lambda>a b. a + b) M (mm R Q)
                      (msmul ((qr_next env M ^^ j) A ! (M - 1) ! (M - 1)) (eye M))
              \<and> (qr_next env M ^^ Suc j) A
                  = mm (mm (transpose_m Q) ((qr_next env M ^^ j) A)) Q)
       \<and> (\<forall>j\<le>n. is_mat M M ((qr_next env M ^^ j) A)
              \<and> orth_similar M A ((qr_next env M ^^ j) A))"
proof -
  let ?f = "qr_next env M"
  from qr_loop_iterates[OF contract A run] obtain n where n: "n \<le> 1000"
    and res: "A' = (?f ^^ n) A"
    and before: "\<forall>j<n. \<not> close_to M ((?f ^^ Suc j) A) ((?f ^^ j) A)"
    and at: "n < 1000 \<longrightarrow> close_to M ((?f ^^ Suc n) A) ((?f ^^ n) A)"
    and log: "calls w' = calls w @
            map (\<lambda>j. CallQR (shifted M ((?f ^^ j) A))) [0..<min (Suc n) 1000]"
    and steps: "\<forall>j<min (Suc n) 1000. is_mat M M ((?f ^^ j) A)
            \<and> (\<exists>Q R. env_qr env (shifted M ((?f ^^ j) A)) = Inr (Q, R) \<and> orthogonal M Q
                 \<and> (?f ^^ Suc j) A = mm (mm (transpose_m Q) ((?f ^^ j) A)) Q)"
    by blast
  have steps': "\<forall>j<min (Suc n) 1000.
            \<exists>Q R. env_qr env (shifted M ((?f ^^ j) A)) = Inr (Q, R)
              \<and> orthogonal M Q
              \<and> (?f ^^ Suc j) A
                  = mzip (\<lambda>a b. a + b) M (mm R Q) (msmul ((?f ^^ j) A ! (M - 1) ! (M - 1)) (eye M))
              \<and> (?f ^^ Suc j) A = mm (mm (transpose_m Q) ((?f ^^ j) A)) Q"
  proof (intro allI impI)
    fix j assume "j < min (Suc n) 1000"
    with steps obtain Q R where qr: "env_qr env (shifted M ((?f ^^ j) A)) = Inr (Q, R)"
      and Q: "orthogonal M Q"
      and eq: "(?f ^^ Suc j) A = mm (mm (transpose_m Q) ((?f ^^ j) A)) Q"
      by blast
    have "(?f ^^ Suc j) A
        = mzip (\<lambda>a b. a + b) M (mm R Q) (msmul ((?f ^^ j) A ! (M - 1) ! (M - 1)) (eye M))"
      by (simp del: One_nat_def add: qr_next_def qr)
    with qr Q eq show "\<exists>Q R. env_qr env (shifted M ((?f ^^ j) A)) = Inr (Q, R)
              \<and> orthogonal M Q
              \<and> (?f ^^ Suc j) A
                  = mzip (\<lambda>a b. a + b) M (mm R Q) (msmul ((?f ^^ j) A ! (M - 1) ! (M - 1)) (eye M))
              \<and> (?f ^^ Suc j) A = mm (mm (transpose_m Q) ((?f ^^ j) A)) Q"
      by blast
  qed
  have sub: "\<forall>j<n. is_mat M M ((?f ^^ j) A)
            \<and> (\<exists>Q R. env_qr env (shifted M ((?f ^^ j) A)) = Inr (Q, R) \<and> orthogonal M Q
                 \<and> (?f ^^ Suc j) A = mm (mm (transpose_m Q) ((?f ^^ j) A)) Q)"
    using steps n by simp
  have sim: "\<forall>j\<le>n. is_mat M M ((?f ^^ j) A) \<and> orth_similar M A ((?f ^^ j) A)"
    using qr_iterates_similar[OF A sub] by blast
  from n res before at log steps' sim show ?thesis by blast
qed

lemmas qr_eval =
  qr_body_def get_item2_def py_index_def nrows_def ncols_def bind_res_def
  broadcast2_def bdim_def bget_def msmul_def smul_def eye_def call_qr_def matmul_def
  col_def dot_def numeral_2_eq_2 all_close_def

theorem qr_loop_similarity_witness:
  "is_mat 2 2 [[3, 4], [4, 0]]
   \<and> qr_loop \<lparr>env_sign = (\<lambda>x. 1), env_lu = (\<lambda>A. Inr (A, A, A)),
        env_solve_lu = (\<lambda>f v. Inr v), env_solve = (\<lambda>A v. Inr v),
        env_qr = (\<lambda>B. if B = [[3, 4], [4, 0]]
                       then Inr ([[3 / 5, - (4 / 5)], [4 / 5, 3 / 5]], [[5, 12 / 5], [0, - (16 / 5)]])
                       else Inr (eye 2, B))\<rparr> 2 1000 [[3, 4], [4, 0]] \<lparr>rng = (\<lambda>i. 0), calls = []\<rparr>
       = Inr ([[123 / 25, - (64 / 25)], [- (64 / 25), - (48 / 25)]],
              \<lparr>rng = (\<lambda>i. 0),
               calls = [CallQR [[3, 4], [4, 0]],
                        CallQR [[171 / 25, - (64 / 25)], [- (64 / 25), 0]]]\<rparr>)
   \<and> qr_next \<lparr>env_sign = (\<lambda>x. 1), env_lu = (\<lambda>A. Inr (A, A, A)),
        env_solve_lu = (\<lambda>f v. Inr v), env_solve = (\<lambda>A v. Inr v),
        env_qr = (\<lambda>B. if B = [[3, 4], [4, 0]]
                       then Inr ([[3 / 5, - (4 / 5)], [4 / 5, 3 / 5]], [[5, 12 / 5], [0, - (16 / 5)]])
                       else Inr (eye 2, B))\<rparr> 2 [[3, 4], [4, 0]]
       = [[123 / 25, - (64 / 25)], [- (64 / 25), - (48 / 25)]]
   \<and> \<not> close_to 2 [[123 / 25, - (64 / 25)], [- (64 / 25), - (48 / 25)]] [[3, 4], [4, 0]]
   \<and> orth_similar 2 [[3, 4], [4, 0]] [[123 / 25, - (64 / 25)], [- (64 / 25), - (48 / 25)]]"
proof -
  let ?Q = "[[3 / 5, - (4 / 5)], [4 / 5, 3 / 5 :: real]]"
  let ?R = "[[5, 12 / 5], [0, - (16 / 5) :: real]]"
  let ?env = "\<lparr>env_sign = (\<lambda>x. 1), env_lu = (\<lambda>A. Inr (A, A, A)),
        env_solve_lu = (\<lambda>f v. Inr v), env_solve = (\<lambda>A v. Inr v),
        env_qr = (\<lambda>B. if B = [[3, 4], [4, 0]] then Inr (?Q, ?R) else Inr (eye 2, B))\<rparr>"
  let ?A = "[[3, 4], [4, 0 :: real]]"
  let ?A1 = "[[123 / 25, - (64 / 25)], [- (64 / 25), - (48 / 25) :: real]]"
  let ?B1 = "[[171 / 25, - (64 / 25)], [- (64 / 25), 0 :: real]]"
  let ?w = "\<lparr>rng = (\<lambda>i. 0 :: real), calls = []\<rparr>"
  let ?w1 = "\<lparr>rng = (\<lambda>i. 0 :: real), calls = [CallQR ?A]\<rparr>"
  let ?w2 = "\<lparr>rng = (\<lambda>i. 0 :: real), calls = [CallQR ?A, CallQR ?B1]\<rparr>"
  have Q: "orthogonal 2 ?Q"
    by (simp add: orthogonal_def is_mat_def mm_def transpose_m_def ncols_def col_def dot_def
        eye_def numeral_2_eq_2)
  have QR: "mm ?Q ?R = ?A"
    by (simp add: mm_def ncols_def col_def dot_def numeral_2_eq_2)
  have contract: "\<forall>B Q R. is_mat 2 2 B \<longrightarrow> env_qr ?env B = Inr (Q, R) \<longrightarrow>
      orthogonal 2 Q \<and> is_mat 2 2 R \<and> mm Q R = B"
  proof (intro allI impI)
    fix B Q R assume B: "is_mat 2 2 B" and e: "env_qr ?env B = Inr (Q, R)"
    show "orthogonal 2 Q \<and> is_mat 2 2 R \<and> mm Q R = B"
    proof (cases "B = ?A")
      case True
      with e have "Q = ?Q" "R = ?R" by simp_all
      with Q QR True show ?thesis by (simp add: is_mat_def)
    next
      case False
      with e have "Q = eye 2" "R = B" by simp_all
      with B show ?thesis by (simp add: orthogonal_eye mm_eye_left)
    qed
  qed
  have A: "is_mat 2 2 ?A" by (simp add: is_mat_def)
  have body1: "qr_body ?env 2 ?A ?w = Inr (?A1, ?w1)"
    by (simp add: qr_eval)
  have close1: "all_close ?A1 ?A = Inr False"
    by (simp add: qr_eval)
  have body2: "qr_body ?env 2 ?A1 ?w1 = Inr (?A1, ?w2)"
    by (simp add: qr_eval)
  have close2: "all_close ?A1 ?A1 = Inr True"
    by (simp add: qr_eval)
  have step: "qr_loop ?env 2 (Suc (Suc 998)) ?A ?w = Inr (?A1, ?w2)"
    by (simp only: qr_loop.simps body1 close1 body2 close2 bind_res_Inr case_prod_conv
        if_True if_False)
  have n1000: "(1000::nat) = Suc (Suc 998)" by simp
  have run: "qr_loop ?env 2 1000 ?A ?w = Inr (?A1, ?w2)"
    unfolding n1000 by (rule step)
  from qr_loop_similarity[OF contract A run] obtain n where
    "?A1 = (qr_next ?env 2 ^^ n) ?A"
    and "\<forall>j\<le>n. is_mat 2 2 ((qr_next ?env 2 ^^ j) ?A)
              \<and> orth_similar 2 ?A ((qr_next ?env 2 ^^ j) ?A)"
    by blast
  then have sim: "orth_similar 2 ?A ?A1" by auto
  have nxt: "qr_next ?env 2 ?A = ?A1"
    by (simp add: qr_next_def shifted_def mzip_def mm_def qr_eval)
  have far: "\<not> close_to 2 ?A1 ?A"
    by (simp add: close_to_def mzip_def numeral_2_eq_2)
  from A run nxt far sim show ?thesis by blast
qed

section \<open>hessenberg\<close>

subsection \<open>Entries after the slice assignments\<close>















subsection \<open>The two inner loops of a step\<close>








subsection \<open>The reflection as a matrix\<close>













subsection \<open>One step of the reduction\<close>





















subsection \<open>The whole reduction\<close>


lemma is_symmetric_square:
  assumes A: "is_mat M M A"
  shows "is_symmetric A = Inr (list_all (list_all (\<lambda>b. b)) (mzip isclose M A (transpose_m A)))"
  by (simp add: is_symmetric_def broadcast2_mzip[OF A transpose_is_mat[OF A]] bind_res_Inr)

lemma is_symmetric_exact:
  assumes A: "is_mat M M A" and sym: "transpose_m A = A"
  shows "is_symmetric A = Inr True"
proof -
  have "isclose x x" for x by (simp add: isclose_def)
  then show ?thesis
    by (simp add: is_symmetric_square[OF A] sym mzip_def list_all_iff)
qed




lemma sqrt_25: "sqrt 25 = 5"
  by (rule real_sqrt_unique) simp_all

lemmas hess_eval =
  hessenberg_def is_square_def nrows_def ncols_def is_symmetric_def broadcast2_def bdim_def
  bget_def transpose_m_def col_def isclose_def bind_res_def hess_step_def householder_vec_def
  col_from_def l2_norm_def dot_def basis_vec_flat_def py_index_def vadd_def smul_def vsub_def
  left_update_def right_update_def fdiv_def set_col_from_def row_from_def set_row_from_def
  cast_def upt_rec numeral_nat



text \<open>
  The same matrix as an array of integers: every assignment to a slice drops the
  fractional part, and what comes back is not similar to the input (the trace is 6, the
  trace of the input is 8).  The theorem above is about arrays of floating-point
  numbers only.
\<close>

lemma hessenberg_int64_truncates:
  "hessenberg \<lparr>env_sign = (\<lambda>x. if 0 \<le> x then 1 else - 1), env_lu = (\<lambda>A. Inr (A, A, A)),
        env_solve_lu = (\<lambda>f v. Inr v), env_solve = (\<lambda>A v. Inr v),
        env_qr = (\<lambda>B. Inr (B, B))\<rparr> Int64 [[1, 3, 4], [3, 2, 0], [4, 0, 5]] False
   = Inr ([[1, - 5, 0], [- 5, 3, - 1], [0, - 1, 2]], None)
   \<and> sum_list (diag [[1, 3, 4], [3, 2, 0], [4, 0, 5]]) = 8
   \<and> sum_list (diag [[1, - 5, 0], [- 5, 3, - 1], [0, - 1, 2]]) = 6"
  by (simp add: hess_eval sqrt_25 trunc0_def diag_def)

section \<open>power_iteration on a symmetric matrix\<close>

lemma mv_nth:
  assumes A: "is_mat n n A" and v: "length v = n" and i: "i < n"
  shows "mv A v ! i = (\<Sum>j<n. A ! i ! j * v ! j)"
proof -
  have len: "length (A ! i) = length v" using A i v by (simp add: is_mat_row)
  have "mv A v ! i = dot (A ! i) v" using A i by (simp add: mv_def is_mat_def)
  also have "\<dots> = (\<Sum>j<length (A ! i). A ! i ! j * v ! j)" using len by (rule dot_sum)
  finally show ?thesis using len v by simp
qed

lemma dot_mv_symmetric:
  assumes A: "is_mat n n A" and sym: "transpose_m A = A"
    and x: "length x = n" and y: "length y = n"
  shows "dot (mv A y) x = dot y (mv A x)"
proof -
  have lm: "length (mv A z) = n" for z using A by (simp add: length_mv is_mat_def)
  have s: "A ! j ! i = A ! i ! j" if "i < n" "j < n" for i j
    using transpose_nth[OF A that] by (simp add: sym)
  have "dot (mv A y) x = (\<Sum>i<n. mv A y ! i * x ! i)"
    using dot_sum[of "mv A y" x] by (simp add: lm x)
  also have "\<dots> = (\<Sum>i<n. \<Sum>j<n. A ! i ! j * y ! j * x ! i)"
    by (intro sum.cong refl) (simp add: mv_nth[OF A y] sum_distrib_right)
  also have "\<dots> = (\<Sum>j<n. \<Sum>i<n. A ! i ! j * y ! j * x ! i)" by (rule sum.swap)
  also have "\<dots> = (\<Sum>j<n. y ! j * mv A x ! j)"
    by (intro sum.cong refl) (simp add: mv_nth[OF A x] sum_distrib_left s mult_ac)
  also have "\<dots> = dot y (mv A x)"
    using dot_sum[of y "mv A x"] by (simp add: lm y)
  finally show ?thesis .
qed

lemma dot_zero_left: "\<forall>a\<in>set x. a = 0 \<Longrightarrow> dot x y = 0"
  unfolding dot_def by (induction x arbitrary: y) (auto simp: zip_Cons1 split: list.splits)

lemma mv_mv_nonzero:
  assumes A: "is_mat n n A" and sym: "transpose_m A = A" and v: "length v = n"
    and nz: "\<exists>i<n. mv A v ! i \<noteq> 0"
  shows "\<exists>i<n. mv A (mv A v) ! i \<noteq> 0"
proof (rule ccontr)
  assume "\<not> (\<exists>i<n. mv A (mv A v) ! i \<noteq> 0)"
  moreover have lm: "length (mv A z) = n" for z using A by (simp add: length_mv is_mat_def)
  ultimately have "\<forall>a\<in>set (mv A (mv A v)). a = 0"
    by (metis in_set_conv_nth)
  then have "dot (mv A (mv A v)) v = 0" by (rule dot_zero_left)
  then have "dot (mv A v) (mv A v) = 0"
    using dot_mv_symmetric[OF A sym v lm[of v]] by simp
  moreover have "dot (mv A v) (mv A v) \<noteq> 0" using lm nz by (rule nonzero_entry_dot)
  ultimately show False by simp
qed

lemma dot_map_div: "dot r (map (\<lambda>x. x / c) v) = dot r v / c"
  unfolding dot_def
  by (induction r arbitrary: v) (auto simp: zip_Cons1 add_divide_distrib split: list.splits)

lemma mv_scale: "mv A (map (\<lambda>x. x / c) v) = map (\<lambda>x. x / c) (mv A v)"
  by (simp add: mv_def dot_map_div)

lemma power_step_keeps_image:
  assumes A: "is_mat n n A" and sym: "transpose_m A = A" and v: "length v = n"
    and nz: "\<exists>i<n. mv A v ! i \<noteq> 0"
  shows "\<exists>i<n. mv A (power_step A v) ! i \<noteq> 0"
proof -
  have lm: "length (mv A z) = n" for z using A by (simp add: length_mv is_mat_def)
  have "dot (mv A v) (mv A v) \<noteq> 0" using lm nz by (rule nonzero_entry_dot)
  then have c: "l2_norm (mv A v) \<noteq> 0" by (simp add: l2_norm_zero_iff)
  from mv_mv_nonzero[OF A sym v nz] obtain i where i: "i < n" "mv A (mv A v) ! i \<noteq> 0" by blast
  have "mv A (power_step A v) ! i = mv A (mv A v) ! i / l2_norm (mv A v)"
    using i(1) by (simp add: power_step_def mv_scale lm)
  with i c show ?thesis by auto
qed

lemma funpow_power_step_image:
  assumes A: "is_mat n n A" and sym: "transpose_m A = A" and v: "length v = n"
    and nz: "\<exists>i<n. mv A v ! i \<noteq> 0"
  shows "\<exists>i<n. mv A ((power_step A ^^ j) v) ! i \<noteq> 0"
proof (induction j)
  case 0
  with nz show ?case by simp
next
  case (Suc j)
  have "length ((power_step A ^^ j) v) = n" using A v by (rule funpow_power_step_length)
  with A sym have "\<exists>i<n. mv A (power_step A ((power_step A ^^ j) v)) ! i \<noteq> 0"
    using Suc.IH by (rule power_step_keeps_image)
  then show ?case by simp
qed

text \<open>
  Claim C3.  For a symmetric \<open>n\<close>-by-\<open>n\<close> matrix \<open>A\<close> (\<open>A\<^sup>T = A\<close>), \<open>max_iter \<ge> 1\<close> and a
  start vector whose image \<open>A v\<close> is not zero, \<^verbatim>\<open>power_iteration(A, max_iter)\<close> returns
  \<open>(e, v)\<close> where \<open>v\<close> is the start vector after exactly \<open>max_iter\<close> steps
  \<open>v \<mapsto> A v / \<parallel>A v\<parallel>\<close> (there is no early exit), \<open>e\<close> is the Rayleigh quotient of that
  final vector, and \<open>\<parallel>v\<parallel> = 1\<close>.  Only the start vector is assumed to have a nonzero
  image: for a symmetric matrix \<open>A (A v) = 0\<close> forces \<open>\<parallel>A v\<parallel>\<^sup>2 = v\<^sup>T A (A v) = 0\<close>, so
  no later iterate is divided by a zero norm.
\<close>

theorem power_iteration_runs_full_budget:
  assumes A: "is_mat n n A" and sym: "transpose_m A = A" and it: "1 \<le> max_iter"
    and nz: "\<exists>i<n. mv A (fst (randn n w)) ! i \<noteq> 0"
  shows "power_iteration A max_iter w =
           Inr ((quad_form A ((power_step A ^^ max_iter) (fst (randn n w))),
                 (power_step A ^^ max_iter) (fst (randn n w))), snd (randn n w))
       \<and> rayleigh_quotient A ((power_step A ^^ max_iter) (fst (randn n w)))
           = Inr (quad_form A ((power_step A ^^ max_iter) (fst (randn n w))))
       \<and> l2_norm ((power_step A ^^ max_iter) (fst (randn n w))) = 1"
proof -
  have ok: "is_symmetric A = Inr True" using A sym by (rule is_symmetric_exact)
  have "\<forall>j<max_iter. \<exists>i<n. mv A ((power_step A ^^ j) (fst (randn n w))) ! i \<noteq> 0"
    using funpow_power_step_image[OF A sym randn_length nz] by blast
  with A ok it show ?thesis by (rule power_iteration_funpow)
qed

theorem power_iteration_runs_full_budget_witness:
  "is_mat 2 2 [[0, 1], [1, 0]] \<and> transpose_m [[0, 1], [1, 0]] = [[0, 1], [1, 0 :: real]]
   \<and> (1::nat) \<le> 2
   \<and> fst (randn 2 \<lparr>rng = (\<lambda>i. if i = 0 then 3 else 4), calls = []\<rparr>) = [3, 4]
   \<and> mv [[0, 1], [1, 0]] [3, 4] = [4, 3]
   \<and> power_step [[0, 1], [1, 0]] [3, 4] = [4 / 5, 3 / 5]
   \<and> power_step [[0, 1], [1, 0]] [4 / 5, 3 / 5] = [3 / 5, 4 / 5]
   \<and> power_iteration [[0, 1], [1, 0]] 2 \<lparr>rng = (\<lambda>i. if i = 0 then 3 else 4), calls = []\<rparr>
       = Inr ((24 / 25, [3 / 5, 4 / 5]), \<lparr>rng = (\<lambda>i. 4), calls = []\<rparr>)
   \<and> l2_norm [3 / 5, 4 / 5] = 1"
proof -
  let ?A = "[[0, 1], [1, 0 :: real]]"
  let ?w = "\<lparr>rng = (\<lambda>i. if i = 0 then 3 else 4 :: real), calls = []\<rparr>"
  have m: "is_mat 2 2 ?A" by (simp add: is_mat_def)
  have sym: "transpose_m ?A = ?A"
    by (simp add: transpose_m_def ncols_def col_def numeral_2_eq_2)
  have r: "fst (randn 2 ?w) = [3, 4]" "snd (randn 2 ?w) = \<lparr>rng = (\<lambda>i. 4), calls = []\<rparr>"
    by (simp_all add: randn_def numeral_2_eq_2)
  have mv0: "mv ?A [3, 4] = [4, 3]" by (simp add: mv_def dot_def)
  have st1: "power_step ?A [3, 4] = [4 / 5, 3 / 5]"
    by (simp add: power_step_def mv_def dot_def l2_norm_def sqrt_25)
  have st2: "power_step ?A [4 / 5, 3 / 5] = [3 / 5, 4 / 5]"
    by (simp add: power_step_def mv_def dot_def l2_norm_def)
  have pw: "(power_step ?A ^^ 2) [3, 4] = [3 / 5, 4 / 5]"
    by (simp add: numeral_2_eq_2 st1 st2)
  have nz: "\<exists>i<2. mv ?A (fst (randn 2 ?w)) ! i \<noteq> 0"
    by (auto simp: r mv0 intro!: exI[of _ 0])
  have q: "quad_form ?A [3 / 5, 4 / 5] = 24 / 25"
    by (simp add: quad_form_def lessThan_Suc numeral_2_eq_2)
  from power_iteration_runs_full_budget[OF m sym _ nz, of 2]
  show ?thesis using m sym mv0 st1 st2 by (simp add: r pw q)
qed

lemma sqrt_tiny: "sqrt (1 / 1000000000000000000) = 1 / 1000000000"
  by (rule real_sqrt_unique) (simp_all add: power2_eq_square)

text \<open>
  Exact symmetry is needed.  The assertion of \<^verbatim>\<open>power_iteration\<close> lets a matrix pass that
  is symmetric only within the tolerance of \<^verbatim>\<open>np.allclose\<close>; for such a matrix the image
  of an iterate can vanish although the image of the start vector does not, and the
  result is not a number.
\<close>

lemma power_iteration_almost_symmetric:
  "is_symmetric [[0, 1 / 10 ^ 9], [0, 0]] = Inr True
   \<and> mv [[0, 1 / 10 ^ 9], [0, 0]] [0, 1] = [1 / 10 ^ 9, 0]
   \<and> power_iteration [[0, 1 / 10 ^ 9], [0, 0]] 2 \<lparr>rng = (\<lambda>i. if i = 1 then 1 else 0), calls = []\<rparr>
       = Inl NonFinite"
  by (simp add: is_symmetric_def broadcast2_def bdim_def bget_def nrows_def ncols_def
      transpose_m_def col_def isclose_def bind_res_def mv_def dot_def power_iteration_def
      assert_symmetric_def randn_def matvec_def vdiv_def l2_norm_def numeral_2_eq_2 sqrt_tiny)

section \<open>The caller's arrays are left as they were\<close>

subsection \<open>Frames\<close>



lemma frame_alloc:
  assumes "frame h0 h" and "alloc x h = (c, h')"
  shows "frame h0 h'" and "next_addr h0 \<le> c"
  using assms by (auto simp: frame_def alloc_def)





subsection \<open>hessenberg\<close>













subsection \<open>The single-eigenpair iterations\<close>









subsection \<open>projected_iteration\<close>








subsection \<open>qr_algorithm\<close>












end
